theory Spec2Isabelle
  imports Main "HOL-Library.Sublist"
begin

section \<open>The repository context generator (main.ts)\<close>

text \<open>
  The program is one class, \<^verbatim>\<open>RepoContextGenerator\<close>, whose method \<^verbatim>\<open>generate\<close> asks git
  for the tracked files, classifies each with the \<^verbatim>\<open>file\<close> command and appends the text
  files to one output document. Everything it does goes through the Deno runtime:
  subprocesses, \<^verbatim>\<open>lstat\<close>, reading and writing files, the clock, the console.

  Text is modelled as \<^typ>\<open>string\<close>, the UTF-8 bytes of the JavaScript string. The counters
  are \<^typ>\<open>nat\<close>: JavaScript numbers count exactly far beyond any number of files.
\<close>

subsection \<open>Data\<close>

text \<open>
  A thrown value. The source tells \<^verbatim>\<open>Deno.errors.NotFound\<close> from every other error, and
  reads the \<^verbatim>\<open>message\<close> of both.
\<close>

datatype error = NotFound string | OtherError string

fun message :: "error \<Rightarrow> string" where
  "message (NotFound m) = m"
| "message (OtherError m) = m"

text \<open>What \<^verbatim>\<open>Deno.Command(...).output()\<close> resolves to, with both streams decoded.\<close>

record commandOutput =
  success :: bool
  stdout :: string
  stderr :: string

text \<open>What \<^verbatim>\<open>Deno.lstat\<close> resolves to; the source reads \<^verbatim>\<open>isSymlink\<close> only.\<close>

record fileInfo =
  isSymlink :: bool

text \<open>\<^verbatim>\<open>interface Stats\<close>.\<close>

record stats =
  processed :: nat
  skipped :: nat

text \<open>
  Every request to the runtime, with its answer, in the order the program made them.
  \<open>GitRepoInfo\<close> is the \<^verbatim>\<open>Promise.all\<close> over the two git commands of \<^verbatim>\<open>getRepoInfo\<close>: both
  outputs (root first, branch second), or the rejection that came first.
  \<open>WriteTextFile path data append\<close> answers \<open>None\<close> when the write succeeded.
\<close>

datatype event =
    GitRevParse "error + commandOutput"
  | GitRepoInfo "error + commandOutput \<times> commandOutput"
  | GitLsFiles "error + commandOutput"
  | FileCmd string "error + commandOutput"
  | Lstat string "error + fileInfo"
  | ReadTextFile string "error + string"
  | WriteTextFile string string bool "error option"
  | Now string

text \<open>
  The lines the program prints, one constructor per \<^verbatim>\<open>console.log\<close> or \<^verbatim>\<open>console.error\<close>
  of the source (\<open>Err...\<close> are the \<^verbatim>\<open>console.error\<close> ones); colours are left out.
\<close>

datatype line =
    ErrNotAGitRepository
  | LogGenerating string
  | LogSkippedSymlink string
  | LogSkippedBinary string
  | LogProcessed string
  | LogSkippedMissing string
  | ErrProcessing string string
  | ErrCheckingFileType string string
  | LogComplete
  | LogProcessedTotal nat
  | LogSkippedTotal nat
  | LogOutputSaved string

text \<open>
  The world outside the program. Each answer may depend on everything the program has
  asked so far (the list of events), so a file may change or vanish between two calls.
  \<open>join\<close> (\<^verbatim>\<open>jsr:@std/path/join\<close>), \<open>trim\<close> (\<^verbatim>\<open>String.prototype.trim\<close>) and \<open>version\<close>
  (\<^verbatim>\<open>deno.json\<close>) are not part of main.ts and are taken as they come; \<open>now\<close> is
  \<^verbatim>\<open>new Date().toISOString()\<close>.
\<close>

record host =
  gitRevParse :: "event list \<Rightarrow> error + commandOutput"
  gitRepoInfo :: "event list \<Rightarrow> error + commandOutput \<times> commandOutput"
  gitLsFiles :: "event list \<Rightarrow> error + commandOutput"
  fileCmd :: "event list \<Rightarrow> string \<Rightarrow> error + commandOutput"
  lstat :: "event list \<Rightarrow> string \<Rightarrow> error + fileInfo"
  readTextFile :: "event list \<Rightarrow> string \<Rightarrow> error + string"
  writeTextFile :: "event list \<Rightarrow> string \<Rightarrow> string \<Rightarrow> bool \<Rightarrow> error option"
  now :: "event list \<Rightarrow> string"
  join :: "string \<Rightarrow> string \<Rightarrow> string"
  trim :: "string \<Rightarrow> string"
  version :: string

text \<open>
  The fields of the generator object (\<open>outputFile\<close>, \<open>stats\<close>, \<open>repoRoot\<close>) and what the run
  has done to the world: \<open>disk\<close> gives the content of each file the program may write (no
  entry: the file does not exist), \<open>console\<close> the lines printed, \<open>events\<close> the requests made.
\<close>

record state =
  outputFile :: string
  stats :: stats
  repoRoot :: string
  disk :: "string \<rightharpoonup> string"
  console :: "line list"
  events :: "event list"

text \<open>How \<^verbatim>\<open>generate\<close> ends: it returns, the process exits with a code, or it throws.\<close>

datatype outcome = Completed | Exited nat | Thrown error

subsection \<open>Strings\<close>

text \<open>
  \<^verbatim>\<open>toLowerCase\<close> on the letters A to Z. JavaScript lowers letters beyond ASCII too, but no
  such letter becomes one of the letters of "text" or "empty", and in UTF-8 no byte of
  a character beyond ASCII is an ASCII byte, so the two searches below see the same.
\<close>

definition toLowerChar :: "char \<Rightarrow> char" where
  "toLowerChar c =
     (case map_of (zip ''ABCDEFGHIJKLMNOPQRSTUVWXYZ'' ''abcdefghijklmnopqrstuvwxyz'') c of
        None \<Rightarrow> c
      | Some d \<Rightarrow> d)"

definition toLowerCase :: "string \<Rightarrow> string" where
  "toLowerCase s = map toLowerChar s"

text \<open>\<^verbatim>\<open>s.includes(t)\<close>: \<open>t\<close> occurs in \<open>s\<close> at some position, found by trying each
  position from the left.\<close>

fun includes_str :: "string \<Rightarrow> string \<Rightarrow> bool" where
  "includes_str [] t = (t = [])"
| "includes_str (c # cs) t = (prefix t (c # cs) \<or> includes_str cs t)"

text \<open>\<^verbatim>\<open>s.split("\n")\<close>, with the piece read so far in \<open>cur\<close>.\<close>

fun splitLines :: "string \<Rightarrow> string \<Rightarrow> string list" where
  "splitLines cur [] = [cur]"
| "splitLines cur (c # cs) =
     (if c = CHR 0x0A then cur # splitLines [] cs else splitLines (cur @ [c]) cs)"

text \<open>A counter in decimal, as a template literal prints it.\<close>

definition digit :: "nat \<Rightarrow> char" where
  "digit d = ''0123456789'' ! d"

fun decimal :: "nat \<Rightarrow> string" where
  "decimal n = (if n < 10 then [digit n] else decimal (n div 10) @ [digit (n mod 10)])"

declare decimal.simps [simp del]

subsection \<open>Requests to the runtime\<close>

text \<open>Each request asks the host, given the history, and adds itself to the history.\<close>

definition record_event :: "event \<Rightarrow> state \<Rightarrow> state" where
  "record_event e s = s\<lparr>events := events s @ [e]\<rparr>"

definition print :: "line \<Rightarrow> state \<Rightarrow> state" where
  "print l s = s\<lparr>console := console s @ [l]\<rparr>"

definition runGitRevParse :: "host \<Rightarrow> state \<Rightarrow> (error + commandOutput) \<times> state" where
  "runGitRevParse h s = (let r = gitRevParse h (events s) in (r, record_event (GitRevParse r) s))"

definition runGitRepoInfo ::
  "host \<Rightarrow> state \<Rightarrow> (error + commandOutput \<times> commandOutput) \<times> state" where
  "runGitRepoInfo h s = (let r = gitRepoInfo h (events s) in (r, record_event (GitRepoInfo r) s))"

definition runGitLsFiles :: "host \<Rightarrow> state \<Rightarrow> (error + commandOutput) \<times> state" where
  "runGitLsFiles h s = (let r = gitLsFiles h (events s) in (r, record_event (GitLsFiles r) s))"

definition runFileCmd :: "host \<Rightarrow> string \<Rightarrow> state \<Rightarrow> (error + commandOutput) \<times> state" where
  "runFileCmd h path s =
     (let r = fileCmd h (events s) path in (r, record_event (FileCmd path r) s))"

definition denoLstat :: "host \<Rightarrow> string \<Rightarrow> state \<Rightarrow> (error + fileInfo) \<times> state" where
  "denoLstat h path s = (let r = lstat h (events s) path in (r, record_event (Lstat path r) s))"

definition denoReadTextFile :: "host \<Rightarrow> string \<Rightarrow> state \<Rightarrow> (error + string) \<times> state" where
  "denoReadTextFile h path s =
     (let r = readTextFile h (events s) path in (r, record_event (ReadTextFile path r) s))"

definition isoNow :: "host \<Rightarrow> state \<Rightarrow> string \<times> state" where
  "isoNow h s = (let t = now h (events s) in (t, record_event (Now t) s))"

text \<open>
  \<^verbatim>\<open>Deno.writeTextFile(path, data, { append })\<close>. A write that succeeds replaces the file,
  or with \<^verbatim>\<open>append\<close> set adds to its end, creating it when absent; a write that fails is taken
  to leave the file as it was.
\<close>

definition denoWriteTextFile ::
  "host \<Rightarrow> string \<Rightarrow> string \<Rightarrow> bool \<Rightarrow> state \<Rightarrow> (error + unit) \<times> state" where
  "denoWriteTextFile h path data app s =
     (let r = writeTextFile h (events s) path data app;
          s1 = record_event (WriteTextFile path data app r) s
      in case r of
           Some e \<Rightarrow> (Inl e, s1)
         | None \<Rightarrow>
             (Inr (),
              s1\<lparr>disk := (disk s1)(path \<mapsto>
                 (if app then (case disk s1 path of None \<Rightarrow> [] | Some old \<Rightarrow> old) else [])
                 @ data)\<rparr>))"

subsection \<open>The methods of the generator\<close>

text \<open>\<^verbatim>\<open>checkGitRepo\<close>: the command's \<^verbatim>\<open>success\<close>, or false when it cannot be run.\<close>

definition checkGitRepo :: "host \<Rightarrow> state \<Rightarrow> bool \<times> state" where
  "checkGitRepo h s =
     (case runGitRevParse h s of
        (Inr out, s1) \<Rightarrow> (success out, s1)
      | (Inl e, s1) \<Rightarrow> (False, s1))"

text \<open>\<^verbatim>\<open>getRepoInfo\<close>: root and branch, trimmed; any failure is wrapped in a new error.\<close>

definition getRepoInfo :: "host \<Rightarrow> state \<Rightarrow> (error + string \<times> string) \<times> state" where
  "getRepoInfo h s =
     (case runGitRepoInfo h s of
        (Inr (rootOutput, branchOutput), s1) \<Rightarrow>
          (Inr (trim h (stdout rootOutput), trim h (stdout branchOutput)), s1)
      | (Inl e, s1) \<Rightarrow>
          (Inl (OtherError (''Failed to get repository info: '' @ message e)), s1))"

text \<open>What \<^verbatim>\<open>getTrackedFiles\<close> makes of the stdout of \<^verbatim>\<open>git ls-files\<close>.\<close>

definition lsLines :: "host \<Rightarrow> string \<Rightarrow> string list" where
  "lsLines h text = filter (\<lambda>line. trim h line \<noteq> []) (splitLines [] text)"

text \<open>
  \<^verbatim>\<open>getTrackedFiles\<close>: the lines of \<^verbatim>\<open>git ls-files\<close> that are not blank, in their order. A
  failed command throws with its stderr; a missing git executable gets its own message;
  any other error is thrown on as it is.
\<close>

definition getTrackedFiles :: "host \<Rightarrow> state \<Rightarrow> (error + string list) \<times> state" where
  "getTrackedFiles h s =
     (case runGitLsFiles h s of
        (Inr out, s1) \<Rightarrow>
          (if \<not> success out
           then (Inl (OtherError (''Git ls-files failed: '' @ stderr out)), s1)
           else (Inr (lsLines h (stdout out)), s1))
      | (Inl (NotFound m), s1) \<Rightarrow>
          (Inl (OtherError
             ''Git executable not found. Please ensure git is installed and in your PATH''), s1)
      | (Inl (OtherError m), s1) \<Rightarrow> (Inl (OtherError m), s1))"

text \<open>
  \<^verbatim>\<open>isBinaryFile\<close>: runs \<^verbatim>\<open>file\<close> on the path and looks for "text" and "empty" in the lowered
  stdout; \<^verbatim>\<open>output.success\<close> is never read. When the command cannot be run, the catch
  prints the error and answers true.
\<close>

definition isBinaryFile :: "host \<Rightarrow> string \<Rightarrow> state \<Rightarrow> bool \<times> state" where
  "isBinaryFile h filePath s =
     (case runFileCmd h filePath s of
        (Inr out, s1) \<Rightarrow>
          (let result = stdout out
           in (\<not> includes_str (toLowerCase result) ''text'' \<and>
               \<not> includes_str (toLowerCase result) ''empty'', s1))
      | (Inl e, s1) \<Rightarrow> (True, print (ErrCheckingFileType filePath (message e)) s1))"

text \<open>The template literal that \<^verbatim>\<open>formatFileContent\<close> returns.\<close>

definition fileSection :: "string \<Rightarrow> string \<Rightarrow> string" where
  "fileSection relativePath content =
     ''\<newline>=== File: '' @ relativePath @ '' ===\<newline>\<newline>'' @ content @
     ''\<newline>\<newline>=== End: '' @ relativePath @ '' ===\<newline>''"

text \<open>\<^verbatim>\<open>formatFileContent\<close>: reads the file at \<open>fullPath\<close>, then fills the template.\<close>

definition formatFileContent ::
  "host \<Rightarrow> string \<Rightarrow> string \<Rightarrow> state \<Rightarrow> (error + string) \<times> state" where
  "formatFileContent h relativePath fullPath s =
     (case denoReadTextFile h fullPath s of
        (Inr content, s1) \<Rightarrow> (Inr (fileSection relativePath content), s1)
      | (Inl e, s1) \<Rightarrow> (Inl e, s1))"

text \<open>The two blocks that \<^verbatim>\<open>generate\<close> builds with \<^verbatim>\<open>[...].join("\n")\<close>.\<close>

definition headerBlock :: "string \<Rightarrow> string \<Rightarrow> string \<Rightarrow> string \<Rightarrow> string" where
  "headerBlock timestamp root branch ver =
     ''Repository Context Generated on '' @ timestamp @ ''\<newline>'' @
     ''Repository Root: '' @ root @ ''\<newline>'' @
     ''Current Branch: '' @ branch @ ''\<newline>'' @
     ''Generator Version: '' @ ver @ ''\<newline>'' @
     ''\<newline>---\<newline>''"

definition summaryBlock :: "stats \<Rightarrow> string \<Rightarrow> string \<Rightarrow> string" where
  "summaryBlock st timestamp ver =
     ''\<newline>=== Summary ===\<newline>'' @ ''\<newline>'' @
     ''Files processed: '' @ decimal (processed st) @ ''\<newline>'' @
     ''Files skipped: '' @ decimal (skipped st) @ '' (binary, symlinks, or missing)'' @ ''\<newline>'' @
     ''Generated on: '' @ timestamp @ ''\<newline>'' @
     ''Generator Version: '' @ ver"

text \<open>\<^verbatim>\<open>this.stats.skipped++\<close> and \<^verbatim>\<open>this.stats.processed++\<close>.\<close>

definition skip :: "state \<Rightarrow> state" where
  "skip s = s\<lparr>stats := (stats s)\<lparr>skipped := skipped (stats s) + 1\<rparr>\<rparr>"

definition count :: "state \<Rightarrow> state" where
  "count s = s\<lparr>stats := (stats s)\<lparr>processed := processed (stats s) + 1\<rparr>\<rparr>"

text \<open>
  The \<^verbatim>\<open>try\<close> block of the loop of \<^verbatim>\<open>generate\<close>, for one path: \<open>Inl e\<close> when something in it
  throws \<open>e\<close>, with the state reached by then.
\<close>

definition tryFile :: "host \<Rightarrow> string \<Rightarrow> string \<Rightarrow> state \<Rightarrow> (error + unit) \<times> state" where
  "tryFile h relativePath fullPath s =
     (case denoLstat h fullPath s of
        (Inl e, s1) \<Rightarrow> (Inl e, s1)
      | (Inr stat, s1) \<Rightarrow>
          if isSymlink stat
          then (Inr (), print (LogSkippedSymlink relativePath) (skip s1))
          else
            (case isBinaryFile h fullPath s1 of
               (True, s2) \<Rightarrow> (Inr (), print (LogSkippedBinary relativePath) (skip s2))
             | (False, s2) \<Rightarrow>
                 (case formatFileContent h relativePath fullPath s2 of
                    (Inl e, s3) \<Rightarrow> (Inl e, s3)
                  | (Inr content, s3) \<Rightarrow>
                      (case denoWriteTextFile h (outputFile s3) content True s3 of
                         (Inl e, s4) \<Rightarrow> (Inl e, s4)
                       | (Inr u, s4) \<Rightarrow>
                           (Inr (), print (LogProcessed relativePath) (count s4))))))"

text \<open>
  One turn of the loop: the \<^verbatim>\<open>try\<close> block and its \<^verbatim>\<open>catch\<close>, which counts a
  \<^verbatim>\<open>Deno.errors.NotFound\<close> as skipped and prints any other error.
\<close>

definition processFile :: "host \<Rightarrow> string \<Rightarrow> state \<Rightarrow> state" where
  "processFile h relativePath s =
     (let fullPath = join h (repoRoot s) relativePath
      in case tryFile h relativePath fullPath s of
           (Inr u, s1) \<Rightarrow> s1
         | (Inl (NotFound m), s1) \<Rightarrow> print (LogSkippedMissing relativePath) (skip s1)
         | (Inl (OtherError m), s1) \<Rightarrow> print (ErrProcessing relativePath m) s1)"

text \<open>\<^verbatim>\<open>for (const relativePath of files)\<close>.\<close>

fun processFiles :: "host \<Rightarrow> string list \<Rightarrow> state \<Rightarrow> state" where
  "processFiles h [] s = s"
| "processFiles h (relativePath # rest) s = processFiles h rest (processFile h relativePath s)"

text \<open>
  The end of \<^verbatim>\<open>generate\<close>, after the loop: the summary is appended and the totals printed.
\<close>

definition writeSummary :: "host \<Rightarrow> state \<Rightarrow> outcome \<times> state" where
  "writeSummary h s =
     (case isoNow h s of
        (t, s1) \<Rightarrow>
          (case denoWriteTextFile h (outputFile s1) (summaryBlock (stats s1) t (version h)) True s1 of
             (Inl e, s2) \<Rightarrow> (Thrown e, s2)
           | (Inr u, s2) \<Rightarrow>
               (Completed,
                print (LogOutputSaved (outputFile s2))
                  (print (LogSkippedTotal (skipped (stats s2)))
                     (print (LogProcessedTotal (processed (stats s2)))
                        (print LogComplete s2))))))"

text \<open>\<^verbatim>\<open>generate\<close>.\<close>

definition generate :: "host \<Rightarrow> state \<Rightarrow> outcome \<times> state" where
  "generate h s =
     (case checkGitRepo h s of
        (False, s1) \<Rightarrow> (Exited 1, print ErrNotAGitRepository s1)
      | (True, s1) \<Rightarrow>
          (case getRepoInfo h s1 of
             (Inl e, s2) \<Rightarrow> (Thrown e, s2)
           | (Inr (root, branch), s2) \<Rightarrow>
               (case isoNow h (print (LogGenerating (outputFile s2)) (s2\<lparr>repoRoot := root\<rparr>)) of
                  (t, s3) \<Rightarrow>
                    (case denoWriteTextFile h (outputFile s3)
                            (headerBlock t root branch (version h)) False s3 of
                       (Inl e, s4) \<Rightarrow> (Thrown e, s4)
                     | (Inr u, s4) \<Rightarrow>
                         (case getTrackedFiles h s4 of
                            (Inl e, s5) \<Rightarrow> (Thrown e, s5)
                          | (Inr files, s5) \<Rightarrow> writeSummary h (processFiles h files s5))))))"

text \<open>
  \<^verbatim>\<open>new RepoContextGenerator(outputFile)\<close> in a world whose files are \<open>d\<close>: counters at zero,
  nothing printed or asked yet.
\<close>

definition newGenerator :: "string \<Rightarrow> (string \<rightharpoonup> string) \<Rightarrow> state" where
  "newGenerator out d =
     \<lparr>outputFile = out, stats = \<lparr>processed = 0, skipped = 0\<rparr>, repoRoot = [],
      disk = d, console = [], events = []\<rparr>"

subsection \<open>What a run leaves behind\<close>

text \<open>The per-file errors printed: the lines of the \<^verbatim>\<open>else\<close> branch of the loop's catch.\<close>

fun isErrProcessing :: "line \<Rightarrow> bool" where
  "isErrProcessing (ErrProcessing p m) = True"
| "isErrProcessing l = False"

definition errored :: "line list \<Rightarrow> nat" where
  "errored ls = length (filter isErrProcessing ls)"

text \<open>The appends that succeeded, and the reads that succeeded.\<close>

fun isAppended :: "event \<Rightarrow> bool" where
  "isAppended (WriteTextFile path data True None) = True"
| "isAppended e = False"

definition appended :: "event list \<Rightarrow> nat" where
  "appended evs = length (filter isAppended evs)"

fun isRead :: "event \<Rightarrow> bool" where
  "isRead (ReadTextFile path (Inr content)) = True"
| "isRead e = False"

definition readOk :: "event list \<Rightarrow> nat" where
  "readOk evs = length (filter isRead evs)"

text \<open>
  The spec's reading of the classifier's test, in its own words and without the code's
  \<^verbatim>\<open>toLowerCase\<close>. In ASCII the capitals A to Z are 65 to 90 and each small letter is 32
  above its capital. Two characters are the same letter when they are equal or one is
  the capital of the other. The output contains the word, whatever the case, when some
  stretch of it is the word letter by letter.
\<close>

definition capitalOf :: "char \<Rightarrow> char \<Rightarrow> bool" where
  "capitalOf c d \<longleftrightarrow>
     65 \<le> (of_char c :: nat) \<and> (of_char c :: nat) \<le> 90 \<and> (of_char d :: nat) = of_char c + 32"

definition sameLetter :: "char \<Rightarrow> char \<Rightarrow> bool" where
  "sameLetter c d \<longleftrightarrow> c = d \<or> capitalOf c d \<or> capitalOf d c"

definition containsIgnoringCase :: "string \<Rightarrow> string \<Rightarrow> bool" where
  "containsIgnoringCase word text \<longleftrightarrow>
     (\<exists>before stretch after.
        text = before @ stretch @ after \<and> list_all2 sameLetter stretch word)"

subsection \<open>The spec's account of the files\<close>

text \<open>
  The spec's FileOutcome, one for each tracked file; a processed file carries the content
  that was read.
\<close>

datatype fileOutcome =
    Processed string
  | SkippedSymlink
  | SkippedBinary
  | SkippedMissing
  | Errored string

text \<open>
  A failure on one file: a file that is not found is missing, any other failure is an
  error with its message.
\<close>

fun caught :: "error \<Rightarrow> fileOutcome" where
  "caught (NotFound m) = SkippedMissing"
| "caught (OtherError m) = Errored m"

text \<open>
  The outcome of one file as the spec tells it, from the answers of the world alone: the
  metadata first (a link is skipped at once), then the classifier (binary unless its
  output mentions text or empty, and binary when it cannot be run), then the read, then
  the append of the section. \<open>asked\<close> is everything asked of the world before; the second
  component is everything asked after this file.
\<close>

definition outcomeOf ::
  "host \<Rightarrow> string \<Rightarrow> string \<Rightarrow> string \<Rightarrow> event list \<Rightarrow> fileOutcome \<times> event list" where
  "outcomeOf h outFile relativePath fullPath asked =
     (let meta = lstat h asked fullPath;
          asked1 = asked @ [Lstat fullPath meta]
      in case meta of
           Inl e \<Rightarrow> (caught e, asked1)
         | Inr info \<Rightarrow>
             if isSymlink info then (SkippedSymlink, asked1)
             else
               (let described = fileCmd h asked1 fullPath;
                    asked2 = asked1 @ [FileCmd fullPath described]
                in case described of
                     Inl e \<Rightarrow> (SkippedBinary, asked2)
                   | Inr out \<Rightarrow>
                       if containsIgnoringCase ''text'' (stdout out) \<or>
                          containsIgnoringCase ''empty'' (stdout out)
                       then
                         (let readResult = readTextFile h asked2 fullPath;
                              asked3 = asked2 @ [ReadTextFile fullPath readResult]
                          in case readResult of
                               Inl e \<Rightarrow> (caught e, asked3)
                             | Inr content \<Rightarrow>
                                 (let written = writeTextFile h asked3 outFile
                                                  (fileSection relativePath content) True;
                                      asked4 = asked3 @ [WriteTextFile outFile
                                                  (fileSection relativePath content) True written]
                                  in case written of
                                       Some e \<Rightarrow> (caught e, asked4)
                                     | None \<Rightarrow> (Processed content, asked4)))
                       else (SkippedBinary, asked2)))"

text \<open>The outcomes of the tracked files, taken one after the other in the order of the list.\<close>

fun outcomes ::
  "host \<Rightarrow> string \<Rightarrow> string \<Rightarrow> string list \<Rightarrow> event list \<Rightarrow> fileOutcome list \<times> event list" where
  "outcomes h outFile root [] asked = ([], asked)"
| "outcomes h outFile root (p # ps) asked =
     (case outcomeOf h outFile p (join h root p) asked of
        (oc, asked1) \<Rightarrow>
          (case outcomes h outFile root ps asked1 of
             (ocs, asked2) \<Rightarrow> (oc # ocs, asked2)))"

fun isProcessed :: "fileOutcome \<Rightarrow> bool" where
  "isProcessed (Processed content) = True"
| "isProcessed oc = False"

fun isSkipped :: "fileOutcome \<Rightarrow> bool" where
  "isSkipped SkippedSymlink = True"
| "isSkipped SkippedBinary = True"
| "isSkipped SkippedMissing = True"
| "isSkipped oc = False"

fun isErrored :: "fileOutcome \<Rightarrow> bool" where
  "isErrored (Errored m) = True"
| "isErrored oc = False"

text \<open>The section of one file: its block when it was processed, nothing otherwise.\<close>

fun sectionOf :: "string \<Rightarrow> fileOutcome \<Rightarrow> string" where
  "sectionOf p (Processed content) = fileSection p content"
| "sectionOf p oc = []"

text \<open>The sections of the files, in the order of the list.\<close>

definition sections :: "string list \<Rightarrow> fileOutcome list \<Rightarrow> string" where
  "sections files ocs = concat (map (\<lambda>(p, oc). sectionOf p oc) (zip files ocs))"

text \<open>Lines put together with a separator between them: what \<^verbatim>\<open>split\<close> takes apart.\<close>

fun joinWith :: "char \<Rightarrow> string list \<Rightarrow> string" where
  "joinWith c [] = []"
| "joinWith c [l] = l"
| "joinWith c (l # l' # ls) = l @ c # joinWith c (l' # ls)"

subsection \<open>Example worlds\<close>

text \<open>\<^verbatim>\<open>trim\<close> for text whose white space is ASCII.\<close>

definition trimAscii :: "string \<Rightarrow> string" where
  "trimAscii s =
     (let ws = (\<lambda>c. c \<in> set [CHR 0x09, CHR 0x0A, CHR 0x0B, CHR 0x0C, CHR 0x0D, CHR 0x20])
      in rev (dropWhile ws (rev (dropWhile ws s))))"

text \<open>
  The scenario of the spec: a repository at \<^verbatim>\<open>/r\<close> on branch main that tracks a text file, a
  picture and a symbolic link, and in which every request succeeds.
\<close>

definition demoHost :: host where
  "demoHost =
     \<lparr>gitRevParse = (\<lambda>evs. Inr \<lparr>success = True, stdout = [], stderr = []\<rparr>),
      gitRepoInfo = (\<lambda>evs. Inr (\<lparr>success = True, stdout = ''/r\<newline>'', stderr = []\<rparr>,
                                 \<lparr>success = True, stdout = ''main\<newline>'', stderr = []\<rparr>)),
      gitLsFiles = (\<lambda>evs. Inr \<lparr>success = True,
                                stdout = ''a.txt\<newline>img.png\<newline>link.txt\<newline>'', stderr = []\<rparr>),
      fileCmd = (\<lambda>evs path. Inr \<lparr>success = True,
                   stdout = (if path = ''/r/a.txt'' then ''/r/a.txt: ASCII text''
                             else path @ '': PNG image data''), stderr = []\<rparr>),
      lstat = (\<lambda>evs path. Inr \<lparr>isSymlink = (path = ''/r/link.txt'')\<rparr>),
      readTextFile = (\<lambda>evs path. Inr ''hello''),
      writeTextFile = (\<lambda>evs path data app. None),
      now = (\<lambda>evs. ''2024-01-31T12:00:00.000Z''),
      join = (\<lambda>a b. a @ ''/'' @ b),
      trim = trimAscii,
      version = ''1.0.0''\<rparr>"

text \<open>The same world, where the text file vanishes before it is read.\<close>

definition vanishHost :: host where
  "vanishHost = demoHost\<lparr>readTextFile := (\<lambda>evs path. Inl (NotFound ''No such file or directory''))\<rparr>"

text \<open>The same world, where reading is not permitted.\<close>

definition deniedHost :: host where
  "deniedHost = demoHost\<lparr>readTextFile := (\<lambda>evs path. Inl (OtherError ''Permission denied''))\<rparr>"

text \<open>The same world, where the disk is full once the header is written.\<close>

definition fullDiskHost :: host where
  "fullDiskHost =
     demoHost\<lparr>writeTextFile :=
       (\<lambda>evs path data app. if app then Some (OtherError ''No space left on device'') else None)\<rparr>"

text \<open>The same world without the \<^verbatim>\<open>file\<close> command.\<close>

definition noFileCmdHost :: host where
  "noFileCmdHost = demoHost\<lparr>fileCmd := (\<lambda>evs path. Inl (NotFound ''Failed to spawn: file''))\<rparr>"


text \<open>The same world outside any repository.\<close>

definition notRepoHost :: host where
  "notRepoHost =
     demoHost\<lparr>gitRevParse := (\<lambda>evs. Inr \<lparr>success = False, stdout = [], stderr = []\<rparr>)\<rparr>"

text \<open>The same world, where the text file is rewritten after the first request.\<close>

definition changingHost :: host where
  "changingHost =
     demoHost\<lparr>readTextFile := (\<lambda>evs path. Inr (if evs = [] then ''hello'' else ''bye''))\<rparr>"

text \<open>The same world, where \<^verbatim>\<open>file\<close> writes in capitals.\<close>

definition capitalsHost :: host where
  "capitalsHost =
     demoHost\<lparr>fileCmd :=
       (\<lambda>evs path. Inr \<lparr>success = True, stdout = path @ '': ASCII TEXT'', stderr = []\<rparr>)\<rparr>"

text \<open>The same world, where \<^verbatim>\<open>git ls-files\<close> fails.\<close>

definition lsFailHost :: host where
  "lsFailHost =
     demoHost\<lparr>gitLsFiles :=
       (\<lambda>evs. Inr \<lparr>success = False, stdout = [], stderr = ''fatal: index file corrupt''\<rparr>)\<rparr>"

text \<open>A generator that has found its root, in a world with no output file yet.\<close>

definition atRoot :: state where
  "atRoot = (newGenerator ''out.txt'' Map.empty)\<lparr>repoRoot := ''/r''\<rparr>"

section \<open>Facts about the model\<close>

subsection \<open>Strings\<close>

text \<open>The search of \<^verbatim>\<open>includes\<close> finds exactly the occurrences of the word.\<close>

lemma includes_str_sublist: "includes_str s t \<longleftrightarrow> sublist t s"
  by (induction s) (simp_all add: sublist_Cons_right)

text \<open>
  An occurrence of a word in the lowered text is a stretch of the text itself that lowers
  to the word.
\<close>

lemma lowered_occurrence:
  "(\<exists>ps ss. map toLowerChar hay = ps @ word @ ss)
     \<longleftrightarrow> (\<exists>before stretch after. hay = before @ stretch @ after \<and>
                                map toLowerChar stretch = word)"
proof
  assume "\<exists>ps ss. map toLowerChar hay = ps @ word @ ss"
  then obtain ps ss where "map toLowerChar hay = ps @ (word @ ss)" by auto
  then have "\<exists>before rest. hay = before @ rest \<and> ps = map toLowerChar before \<and>
               word @ ss = map toLowerChar rest"
    by (simp only: map_eq_append_conv)
  then obtain before rest where
    1: "hay = before @ rest" and 2: "word @ ss = map toLowerChar rest"
    by blast
  from 2 have "\<exists>stretch after. rest = stretch @ after \<and> word = map toLowerChar stretch \<and>
                 ss = map toLowerChar after"
    by (simp only: append_eq_map_conv)
  then obtain stretch after where "rest = stretch @ after" "map toLowerChar stretch = word"
    by auto
  with 1 show "\<exists>before stretch after. hay = before @ stretch @ after \<and>
                 map toLowerChar stretch = word"
    by blast
next
  assume "\<exists>before stretch after. hay = before @ stretch @ after \<and>
            map toLowerChar stretch = word"
  then obtain before stretch after where
    "hay = before @ stretch @ after" "map toLowerChar stretch = word"
    by blast
  then have "map toLowerChar hay = map toLowerChar before @ word @ map toLowerChar after"
    by simp
  then show "\<exists>ps ss. map toLowerChar hay = ps @ word @ ss" by blast
qed

text \<open>
  The code's \<^verbatim>\<open>toLowerCase\<close> against the spec's letters: a character lowers to a small
  letter of "text" or "empty" exactly when it is that letter or its capital.
\<close>

lemma of_char_nat_iff: "((of_char c :: nat) = of_char d) = (c = d)"
  by simp

lemma sameLetter_small:
  assumes "(of_char d :: nat) = n" "(of_char u :: nat) = n - 32" "97 \<le> n" "n \<le> 122"
  shows "sameLetter c d \<longleftrightarrow> c = d \<or> c = u"
proof -
  have "capitalOf c d \<longleftrightarrow> (of_char c :: nat) = of_char u"
    unfolding capitalOf_def using assms by auto
  moreover have "\<not> capitalOf d c"
    unfolding capitalOf_def using assms by auto
  ultimately show ?thesis
    unfolding sameLetter_def by (simp only: of_char_nat_iff) simp
qed

lemma lowered_letter:
  "toLowerChar c = CHR ''t'' \<longleftrightarrow> sameLetter c CHR ''t''"
  "toLowerChar c = CHR ''e'' \<longleftrightarrow> sameLetter c CHR ''e''"
  "toLowerChar c = CHR ''x'' \<longleftrightarrow> sameLetter c CHR ''x''"
  "toLowerChar c = CHR ''m'' \<longleftrightarrow> sameLetter c CHR ''m''"
  "toLowerChar c = CHR ''p'' \<longleftrightarrow> sameLetter c CHR ''p''"
  "toLowerChar c = CHR ''y'' \<longleftrightarrow> sameLetter c CHR ''y''"
proof -
  have 1: "sameLetter c CHR ''t'' \<longleftrightarrow> c = CHR ''t'' \<or> c = CHR ''T''"
    by (rule sameLetter_small [of _ 116]) simp_all
  have 2: "sameLetter c CHR ''e'' \<longleftrightarrow> c = CHR ''e'' \<or> c = CHR ''E''"
    by (rule sameLetter_small [of _ 101]) simp_all
  have 3: "sameLetter c CHR ''x'' \<longleftrightarrow> c = CHR ''x'' \<or> c = CHR ''X''"
    by (rule sameLetter_small [of _ 120]) simp_all
  have 4: "sameLetter c CHR ''m'' \<longleftrightarrow> c = CHR ''m'' \<or> c = CHR ''M''"
    by (rule sameLetter_small [of _ 109]) simp_all
  have 5: "sameLetter c CHR ''p'' \<longleftrightarrow> c = CHR ''p'' \<or> c = CHR ''P''"
    by (rule sameLetter_small [of _ 112]) simp_all
  have 6: "sameLetter c CHR ''y'' \<longleftrightarrow> c = CHR ''y'' \<or> c = CHR ''Y''"
    by (rule sameLetter_small [of _ 121]) simp_all
  show "toLowerChar c = CHR ''t'' \<longleftrightarrow> sameLetter c CHR ''t''"
    unfolding 1 by (auto simp: toLowerChar_def split: if_splits)
  show "toLowerChar c = CHR ''e'' \<longleftrightarrow> sameLetter c CHR ''e''"
    unfolding 2 by (auto simp: toLowerChar_def split: if_splits)
  show "toLowerChar c = CHR ''x'' \<longleftrightarrow> sameLetter c CHR ''x''"
    unfolding 3 by (auto simp: toLowerChar_def split: if_splits)
  show "toLowerChar c = CHR ''m'' \<longleftrightarrow> sameLetter c CHR ''m''"
    unfolding 4 by (auto simp: toLowerChar_def split: if_splits)
  show "toLowerChar c = CHR ''p'' \<longleftrightarrow> sameLetter c CHR ''p''"
    unfolding 5 by (auto simp: toLowerChar_def split: if_splits)
  show "toLowerChar c = CHR ''y'' \<longleftrightarrow> sameLetter c CHR ''y''"
    unfolding 6 by (auto simp: toLowerChar_def split: if_splits)
qed

lemma lowered_stretch:
  assumes "\<forall>d \<in> set word. \<forall>c. (toLowerChar c = d) = sameLetter c d"
  shows "list_all2 sameLetter stretch word \<longleftrightarrow> map toLowerChar stretch = word"
proof -
  have "list_all2 sameLetter stretch word
          \<longleftrightarrow> list_all2 (\<lambda>c d. toLowerChar c = d) stretch word"
    using assms by (auto elim!: list_all2_mono dest: list_all2_lengthD simp: list_all2_conv_all_nth)
  also have "\<dots> \<longleftrightarrow> list_all2 (=) (map toLowerChar stretch) word"
    by (simp add: list.rel_map)
  finally show ?thesis by (simp add: list.rel_eq)
qed

lemma includes_toLowerCase:
  assumes "\<forall>d \<in> set word. \<forall>c. (toLowerChar c = d) = sameLetter c d"
  shows "includes_str (toLowerCase hay) word \<longleftrightarrow> containsIgnoringCase word hay"
proof -
  have "includes_str (toLowerCase hay) word
          \<longleftrightarrow> (\<exists>ps ss. map toLowerChar hay = ps @ word @ ss)"
    by (simp add: includes_str_sublist sublist_def toLowerCase_def)
  also have "\<dots> \<longleftrightarrow> (\<exists>before stretch after. hay = before @ stretch @ after \<and>
                          map toLowerChar stretch = word)"
    by (rule lowered_occurrence)
  also have "\<dots> \<longleftrightarrow> containsIgnoringCase word hay"
    unfolding containsIgnoringCase_def lowered_stretch [OF assms] ..
  finally show ?thesis .
qed

lemma includes_text:
  "includes_str (toLowerCase hay) ''text'' \<longleftrightarrow> containsIgnoringCase ''text'' hay"
  by (rule includes_toLowerCase) (simp add: lowered_letter)

lemma includes_empty:
  "includes_str (toLowerCase hay) ''empty'' \<longleftrightarrow> containsIgnoringCase ''empty'' hay"
  by (rule includes_toLowerCase) (simp add: lowered_letter)

text \<open>\<^verbatim>\<open>split\<close> undoes the joining of lines that hold no separator.\<close>

lemma splitLines_line:
  "CHR 0x0A \<notin> set l \<Longrightarrow> splitLines cur (l @ r) = splitLines (cur @ l) r"
  by (induction l arbitrary: cur) auto

lemma splitLines_joinWith:
  assumes "\<forall>l \<in> set (l0 # ls). CHR 0x0A \<notin> set l"
  shows "splitLines cur (joinWith (CHR 0x0A) (l0 # ls)) = (cur @ l0) # ls"
  using assms
proof (induction ls arbitrary: cur l0)
  case Nil
  then show ?case using splitLines_line [of l0 cur "[]"] by simp
next
  case (Cons l1 ls)
  have "splitLines cur (joinWith (CHR 0x0A) (l0 # l1 # ls))
          = splitLines (cur @ l0) (CHR 0x0A # joinWith (CHR 0x0A) (l1 # ls))"
    using Cons.prems splitLines_line [of l0 cur] by simp
  also have "\<dots> = (cur @ l0) # splitLines [] (joinWith (CHR 0x0A) (l1 # ls))"
    by simp
  also have "splitLines [] (joinWith (CHR 0x0A) (l1 # ls)) = l1 # ls"
    using Cons.IH [of l1 "[]"] Cons.prems by simp
  finally show ?case .
qed

lemma lsLines_joinWith:
  assumes "lines \<noteq> []" "\<forall>l \<in> set lines. CHR 0x0A \<notin> set l"
  shows "lsLines h (joinWith (CHR 0x0A) lines) = filter (\<lambda>l. trim h l \<noteq> []) lines"
proof -
  obtain l0 ls where "lines = l0 # ls" using assms(1) by (cases lines) auto
  then show ?thesis
    using splitLines_joinWith [of l0 ls "[]"] assms(2) by (simp add: lsLines_def)
qed

text \<open>Every text is its lines joined, and no line holds the separator.\<close>

lemma splitLines_not_Nil: "splitLines cur t \<noteq> []"
  by (induction t arbitrary: cur) auto

lemma joinWith_splitLines: "joinWith (CHR 0x0A) (splitLines cur t) = cur @ t"
proof (induction t arbitrary: cur)
  case Nil
  show ?case by simp
next
  case (Cons c t)
  show ?case
  proof (cases "c = CHR 0x0A")
    case True
    obtain l ls where "splitLines [] t = l # ls"
      using splitLines_not_Nil [of "[]" t] by (cases "splitLines [] t") auto
    then show ?thesis using True Cons.IH [of "[]"] by simp
  next
    case False
    then show ?thesis using Cons.IH [of "cur @ [c]"] by simp
  qed
qed

lemma splitLines_no_newline:
  "l \<in> set (splitLines cur t) \<Longrightarrow> CHR 0x0A \<notin> set cur \<Longrightarrow> CHR 0x0A \<notin> set l"
proof (induction t arbitrary: cur)
  case Nil
  then show ?case by simp
next
  case (Cons c t)
  show ?case
  proof (cases "c = CHR 0x0A")
    case True
    then have "l = cur \<or> l \<in> set (splitLines [] t)" using Cons.prems(1) by simp
    then show ?thesis using Cons.IH [of "[]"] Cons.prems(2) by auto
  next
    case False
    then have "l \<in> set (splitLines (cur @ [c]) t)" using Cons.prems(1) by simp
    then show ?thesis using Cons.IH [of "cur @ [c]"] Cons.prems(2) False by auto
  qed
qed

subsection \<open>What each request leaves unchanged\<close>

lemma errored_snoc: "errored (ls @ [l]) = errored ls + (if isErrProcessing l then 1 else 0)"
  by (simp add: errored_def)

lemma denoLstat_frame:
  assumes "denoLstat h path s = (r, s')"
  shows "stats s' = stats s" "disk s' = disk s" "console s' = console s"
    "outputFile s' = outputFile s" "repoRoot s' = repoRoot s"
    "appended (events s') = appended (events s)"
  using assms by (auto simp: denoLstat_def Let_def record_event_def appended_def)

lemma isBinaryFile_frame:
  assumes "isBinaryFile h path s = (b, s')"
  shows "stats s' = stats s" "disk s' = disk s" "errored (console s') = errored (console s)"
    "outputFile s' = outputFile s" "repoRoot s' = repoRoot s"
    "appended (events s') = appended (events s)"
    "\<not> b \<Longrightarrow> console s' = console s"
  using assms
  by (auto simp: isBinaryFile_def runFileCmd_def Let_def record_event_def print_def
      errored_def appended_def split: sum.splits)

lemma formatFileContent_frame:
  assumes "formatFileContent h p path s = (r, s')"
  shows "stats s' = stats s" "disk s' = disk s" "console s' = console s"
    "outputFile s' = outputFile s" "repoRoot s' = repoRoot s"
    "appended (events s') = appended (events s)"
    "r = Inr sec \<Longrightarrow> \<exists>c. sec = fileSection p c"
  using assms
  by (auto simp: formatFileContent_def denoReadTextFile_def Let_def record_event_def
      appended_def split: sum.splits)

lemma denoWriteTextFile_failed:
  assumes "denoWriteTextFile h path data app s = (Inl e, s')"
  shows "stats s' = stats s" "disk s' = disk s" "console s' = console s"
    "outputFile s' = outputFile s" "repoRoot s' = repoRoot s"
    "appended (events s') = appended (events s)"
  using assms
  by (auto simp: denoWriteTextFile_def Let_def record_event_def appended_def
      split: option.splits)

lemma denoWriteTextFile_done:
  assumes "denoWriteTextFile h path data app s = (Inr u, s')"
  shows "stats s' = stats s" "console s' = console s"
    "outputFile s' = outputFile s" "repoRoot s' = repoRoot s"
    "disk s' = (disk s)(path \<mapsto>
        (if app then (case disk s path of None \<Rightarrow> [] | Some old \<Rightarrow> old) else []) @ data)"
    "appended (events s') = appended (events s) + (if app then 1 else 0)"
   
  using assms
  by (auto simp: denoWriteTextFile_def Let_def record_event_def appended_def
      split: option.splits)

text \<open>The history only grows.\<close>

lemma denoLstat_events: "denoLstat h path s = (r, s') \<Longrightarrow> prefix (events s) (events s')"
  by (auto simp: denoLstat_def Let_def record_event_def)

lemma isBinaryFile_events:
  "isBinaryFile h path s = (b, s') \<Longrightarrow> prefix (events s) (events s')"
  by (auto simp: isBinaryFile_def runFileCmd_def Let_def record_event_def print_def
      split: sum.splits)

lemma formatFileContent_events:
  "formatFileContent h p path s = (r, s') \<Longrightarrow> prefix (events s) (events s')"
  by (auto simp: formatFileContent_def denoReadTextFile_def Let_def record_event_def
      split: sum.splits)

lemma denoWriteTextFile_events:
  "denoWriteTextFile h path data app s = (r, s') \<Longrightarrow> prefix (events s) (events s')"
  by (auto simp: denoWriteTextFile_def Let_def record_event_def split: option.splits)

lemma getTrackedFiles_events:
  "getTrackedFiles h s = (r, s') \<Longrightarrow> prefix (events s) (events s')"
  by (auto simp: getTrackedFiles_def runGitLsFiles_def Let_def record_event_def
      split: sum.splits error.splits if_splits)

lemma writeSummary_events: "prefix (events s) (events (snd (writeSummary h s)))"
  by (auto simp: writeSummary_def isoNow_def denoWriteTextFile_def record_event_def print_def
      Let_def split: option.splits)

text \<open>\<^verbatim>\<open>isBinaryFile\<close> in terms of the answer of \<^verbatim>\<open>file\<close> and of the spec's test.\<close>

lemma isBinaryFile_answer:
  "isBinaryFile h path s
     = (case fileCmd h (events s) path of
          Inr out \<Rightarrow>
            (\<not> (containsIgnoringCase ''text'' (stdout out) \<or>
                containsIgnoringCase ''empty'' (stdout out)),
             record_event (FileCmd path (Inr out)) s)
        | Inl e \<Rightarrow>
            (True, print (ErrCheckingFileType path (message e))
                     (record_event (FileCmd path (Inl e)) s)))"
  by (simp add: isBinaryFile_def runFileCmd_def Let_def includes_text includes_empty
      split: sum.splits)

subsection \<open>One path\<close>

text \<open>What the \<^verbatim>\<open>try\<close> block can do with one path: throw, skip, or append a section.\<close>

lemma tryFile_cases:
  obtains (Throw) e s1 where "tryFile h p full s = (Inl e, s1)"
      "stats s1 = stats s" "disk s1 = disk s" "console s1 = console s"
      "outputFile s1 = outputFile s" "repoRoot s1 = repoRoot s"
      "appended (events s1) = appended (events s)"
  | (Skip) s1 where "tryFile h p full s = (Inr (), s1)"
      "stats s1 = (stats s)\<lparr>skipped := skipped (stats s) + 1\<rparr>" "disk s1 = disk s"
      "errored (console s1) = errored (console s)"
      "outputFile s1 = outputFile s" "repoRoot s1 = repoRoot s"
      "appended (events s1) = appended (events s)"
  | (Append) c s1 where "tryFile h p full s = (Inr (), s1)"
      "stats s1 = (stats s)\<lparr>processed := processed (stats s) + 1\<rparr>"
      "disk s1 = (disk s)(outputFile s \<mapsto>
         (case disk s (outputFile s) of None \<Rightarrow> [] | Some old \<Rightarrow> old) @ fileSection p c)"
      "errored (console s1) = errored (console s)"
      "outputFile s1 = outputFile s" "repoRoot s1 = repoRoot s"
      "appended (events s1) = appended (events s) + 1"
proof -
  obtain r s1 where l: "denoLstat h full s = (r, s1)" by fastforce
  note f1 = denoLstat_frame [OF l]
  show thesis
  proof (cases r)
    case (Inl e)
    then have "tryFile h p full s = (Inl e, s1)" using l by (simp add: tryFile_def)
    then show thesis using f1 by (rule Throw)
  next
    case (Inr info)
    show thesis
    proof (cases "isSymlink info")
      case True
      then have "tryFile h p full s = (Inr (), print (LogSkippedSymlink p) (skip s1))"
        using l Inr by (simp add: tryFile_def)
      then show thesis
        by (rule Skip) (simp_all add: print_def skip_def f1 errored_snoc)
    next
      case False
      obtain b s2 where ib: "isBinaryFile h full s1 = (b, s2)" by fastforce
      note f2 = isBinaryFile_frame [OF ib]
      show thesis
      proof (cases b)
        case True
        then have "tryFile h p full s = (Inr (), print (LogSkippedBinary p) (skip s2))"
          using l Inr False ib by (simp add: tryFile_def)
        then show thesis
          by (rule Skip) (simp_all add: print_def skip_def f1 f2 errored_snoc)
      next
        case notBinary: False
        obtain r3 s3 where ff: "formatFileContent h p full s2 = (r3, s3)" by fastforce
        note f3 = formatFileContent_frame [OF ff]
        show thesis
        proof (cases r3)
          case (Inl e)
          then have "tryFile h p full s = (Inl e, s3)"
            using l Inr False ib notBinary ff by (simp add: tryFile_def)
          then show thesis
            using notBinary by (intro Throw [of e s3]) (simp_all add: f1 f2 f3)
        next
          case content: (Inr sec)
          then obtain c where c: "sec = fileSection p c" using f3(7) by blast
          obtain r4 s4 where w: "denoWriteTextFile h (outputFile s3) sec True s3 = (r4, s4)"
            by fastforce
          show thesis
          proof (cases r4)
            case (Inl e)
            then have "tryFile h p full s = (Inl e, s4)"
              using l Inr False ib notBinary ff content w by (simp add: tryFile_def)
            then show thesis
              using denoWriteTextFile_failed [OF w [unfolded Inl]] notBinary
              by (intro Throw [of e s4]) (simp_all add: f1 f2 f3)
          next
            case written: (Inr u)
            note f4 = denoWriteTextFile_done [OF w [unfolded written]]
            have "tryFile h p full s = (Inr (), print (LogProcessed p) (count s4))"
              using l Inr False ib notBinary ff content w written by (simp add: tryFile_def)
            then show thesis
              by (rule Append [of _ c])
                (simp_all add: print_def count_def f1 f2 f3 f4 c errored_snoc)
          qed
        qed
      qed
    qed
  qed
qed

lemma tryFile_events: "tryFile h p full s = (r, s') \<Longrightarrow> prefix (events s) (events s')"
  by (auto simp: tryFile_def print_def skip_def count_def
      split: prod.splits sum.splits bool.splits if_splits
      dest!: denoLstat_events isBinaryFile_events formatFileContent_events
        denoWriteTextFile_events)

text \<open>What one turn of the loop can do: count the file, skip it, or report an error.\<close>

lemma processFile_cases:
  obtains (Counted) c where
      "stats (processFile h p s) = (stats s)\<lparr>processed := processed (stats s) + 1\<rparr>"
      "disk (processFile h p s) = (disk s)(outputFile s \<mapsto>
         (case disk s (outputFile s) of None \<Rightarrow> [] | Some old \<Rightarrow> old) @ fileSection p c)"
      "errored (console (processFile h p s)) = errored (console s)"
      "appended (events (processFile h p s)) = appended (events s) + 1"
  | (Skipped)
      "stats (processFile h p s) = (stats s)\<lparr>skipped := skipped (stats s) + 1\<rparr>"
      "disk (processFile h p s) = disk s"
      "errored (console (processFile h p s)) = errored (console s)"
      "appended (events (processFile h p s)) = appended (events s)"
  | (Failed)
      "stats (processFile h p s) = stats s"
      "disk (processFile h p s) = disk s"
      "errored (console (processFile h p s)) = errored (console s) + 1"
      "appended (events (processFile h p s)) = appended (events s)"
proof (cases rule: tryFile_cases [of h p "join h (repoRoot s) p" s])
  case (Throw e s1)
  show thesis
  proof (cases e)
    case (NotFound m)
    then have "processFile h p s = print (LogSkippedMissing p) (skip s1)"
      using Throw(1) by (simp add: processFile_def)
    then show thesis
      using Throw by (intro Skipped) (simp_all add: print_def skip_def errored_snoc)
  next
    case (OtherError m)
    then have "processFile h p s = print (ErrProcessing p m) s1"
      using Throw(1) by (simp add: processFile_def)
    then show thesis
      using Throw by (intro Failed) (simp_all add: print_def errored_snoc)
  qed
next
  case (Skip s1)
  then have "processFile h p s = s1" by (simp add: processFile_def)
  then show thesis using Skip by (intro Skipped) simp_all
next
  case (Append c s1)
  then have "processFile h p s = s1" by (simp add: processFile_def)
  then show thesis using Append by (intro Counted [of c]) simp_all
qed

lemma processFile_outputFile: "outputFile (processFile h p s) = outputFile s"
  by (cases rule: tryFile_cases [of h p "join h (repoRoot s) p" s])
    (auto simp: processFile_def print_def skip_def split: error.splits)

lemma processFile_repoRoot: "repoRoot (processFile h p s) = repoRoot s"
  by (cases rule: tryFile_cases [of h p "join h (repoRoot s) p" s])
    (auto simp: processFile_def print_def skip_def split: error.splits)

lemma processFile_events: "prefix (events s) (events (processFile h p s))"
proof -
  obtain r s1 where t: "tryFile h p (join h (repoRoot s) p) s = (r, s1)" by fastforce
  from tryFile_events [OF t] show ?thesis
    using t by (auto simp: processFile_def print_def skip_def split: sum.splits error.splits)
qed

lemmas turn_defs = processFile_def tryFile_def formatFileContent_def denoWriteTextFile_def
  denoReadTextFile_def denoLstat_def record_event_def print_def skip_def count_def Let_def
  isBinaryFile_answer outcomeOf_def errored_def

text \<open>One turn of the loop does to the file what the spec's outcome says.\<close>

lemma processFile_refines:
  assumes "outcomeOf h (outputFile s) p (join h (repoRoot s) p) (events s) = (oc, asked')"
  shows "processed (stats (processFile h p s))
           = processed (stats s) + (if isProcessed oc then 1 else 0)"
    and "skipped (stats (processFile h p s))
           = skipped (stats s) + (if isSkipped oc then 1 else 0)"
    and "errored (console (processFile h p s))
           = errored (console s) + (if isErrored oc then 1 else 0)"
    and "events (processFile h p s) = asked'"
    and "disk (processFile h p s)
           = (if isProcessed oc
              then (disk s)(outputFile s \<mapsto>
                     (case disk s (outputFile s) of None \<Rightarrow> [] | Some old \<Rightarrow> old)
                     @ sectionOf p oc)
              else disk s)"
proof -
  let ?full = "join h (repoRoot s) p"
  let ?goal = "processed (stats (processFile h p s))
           = processed (stats s) + (if isProcessed oc then 1 else 0) \<and>
         skipped (stats (processFile h p s))
           = skipped (stats s) + (if isSkipped oc then 1 else 0) \<and>
         errored (console (processFile h p s))
           = errored (console s) + (if isErrored oc then 1 else 0) \<and>
         events (processFile h p s) = asked' \<and>
         disk (processFile h p s)
           = (if isProcessed oc
              then (disk s)(outputFile s \<mapsto>
                     (case disk s (outputFile s) of None \<Rightarrow> [] | Some old \<Rightarrow> old)
                     @ sectionOf p oc)
              else disk s)"
  have ?goal
  proof (cases "lstat h (events s) ?full")
    case (Inl e)
    then show ?thesis using assms by (cases e) (auto simp: turn_defs)
  next
    case meta: (Inr info)
    show ?thesis
    proof (cases "isSymlink info")
      case True
      then show ?thesis using assms meta by (auto simp: turn_defs)
    next
      case noLink: False
      let ?a1 = "events s @ [Lstat ?full (Inr info)]"
      show ?thesis
      proof (cases "fileCmd h ?a1 ?full")
        case (Inl e)
        then show ?thesis using assms meta noLink by (auto simp: turn_defs)
      next
        case described: (Inr out)
        show ?thesis
        proof (cases "containsIgnoringCase ''text'' (stdout out) \<or>
                      containsIgnoringCase ''empty'' (stdout out)")
          case False
          then show ?thesis using assms meta noLink described by (auto simp: turn_defs)
        next
          case isText: True
          let ?a2 = "?a1 @ [FileCmd ?full (Inr out)]"
          show ?thesis
          proof (cases "readTextFile h ?a2 ?full")
            case (Inl e)
            then show ?thesis
              using assms meta noLink described isText by (cases e) (auto simp: turn_defs)
          next
            case readOk: (Inr content)
            let ?a3 = "?a2 @ [ReadTextFile ?full (Inr content)]"
            show ?thesis
            proof (cases "writeTextFile h ?a3 (outputFile s) (fileSection p content) True")
              case None
              then show ?thesis
                using assms meta noLink described isText readOk by (auto simp: turn_defs)
            next
              case (Some e)
              then show ?thesis
                using assms meta noLink described isText readOk
                by (cases e) (auto simp: turn_defs)
            qed
          qed
        qed
      qed
    qed
  qed
  then show "processed (stats (processFile h p s))
           = processed (stats s) + (if isProcessed oc then 1 else 0)"
    and "skipped (stats (processFile h p s))
           = skipped (stats s) + (if isSkipped oc then 1 else 0)"
    and "errored (console (processFile h p s))
           = errored (console s) + (if isErrored oc then 1 else 0)"
    and "events (processFile h p s) = asked'"
    and "disk (processFile h p s)
           = (if isProcessed oc
              then (disk s)(outputFile s \<mapsto>
                     (case disk s (outputFile s) of None \<Rightarrow> [] | Some old \<Rightarrow> old)
                     @ sectionOf p oc)
              else disk s)"
    by simp_all
qed

subsection \<open>The loop\<close>

lemma processFiles_events: "prefix (events s) (events (processFiles h files s))"
proof (induction files arbitrary: s)
  case Nil
  show ?case by simp
next
  case (Cons p rest)
  have "prefix (events s) (events (processFile h p s))" by (rule processFile_events)
  also have "prefix \<dots> (events (processFiles h rest (processFile h p s)))" by (rule Cons.IH)
  finally show ?case by simp
qed

lemma processFiles_outputFile: "outputFile (processFiles h files s) = outputFile s"
  by (induction files arbitrary: s) (simp_all add: processFile_outputFile)


lemma sections_Cons: "sections (p # ps) (oc # ocs) = sectionOf p oc @ sections ps ocs"
  by (simp add: sections_def)

text \<open>The loop does to the files what the spec's outcomes say, in the order of the list.\<close>

lemma processFiles_refines_all:
  assumes "outcomes h (outputFile s) (repoRoot s) files (events s) = (ocs, asked')"
  shows "length ocs = length files \<and>
         processed (stats (processFiles h files s))
           = processed (stats s) + length (filter isProcessed ocs) \<and>
         skipped (stats (processFiles h files s))
           = skipped (stats s) + length (filter isSkipped ocs) \<and>
         errored (console (processFiles h files s))
           = errored (console s) + length (filter isErrored ocs) \<and>
         events (processFiles h files s) = asked' \<and>
         (\<forall>d. disk s (outputFile s) = Some d \<longrightarrow>
              disk (processFiles h files s) (outputFile s) = Some (d @ sections files ocs))"
  using assms
proof (induction files arbitrary: s ocs)
  case Nil
  then show ?case by (simp add: sections_def)
next
  case (Cons p ps)
  let ?s1 = "processFile h p s"
  obtain oc asked1 where
    one: "outcomeOf h (outputFile s) p (join h (repoRoot s) p) (events s) = (oc, asked1)"
    by fastforce
  obtain ocs' asked2 where
    rest: "outcomes h (outputFile s) (repoRoot s) ps asked1 = (ocs', asked2)"
    by fastforce
  have ocs: "ocs = oc # ocs'" "asked' = asked2" using Cons.prems one rest by simp_all
  note turn = processFile_refines [OF one]
  have out: "outputFile ?s1 = outputFile s" by (rule processFile_outputFile)
  have rest1: "outcomes h (outputFile ?s1) (repoRoot ?s1) ps (events ?s1) = (ocs', asked')"
    using rest ocs(2) by (simp add: out processFile_repoRoot turn(4))
  note ih = Cons.IH [OF rest1]
  have "disk (processFiles h (p # ps) s) (outputFile s) = Some (d @ sections (p # ps) ocs)"
    if d: "disk s (outputFile s) = Some d" for d
  proof -
    have "disk ?s1 (outputFile ?s1) = Some (d @ sectionOf p oc)"
      using turn(5) d out by (cases oc) simp_all
    with ih show ?thesis using out ocs by (simp add: sections_Cons)
  qed
  then show ?case using ih turn(1,2,3) ocs by simp
qed

lemma processFiles_refines:
  assumes "outcomes h (outputFile s) (repoRoot s) files (events s) = (ocs, asked')"
  shows "length ocs = length files"
    and "processed (stats (processFiles h files s))
           = processed (stats s) + length (filter isProcessed ocs)"
    and "skipped (stats (processFiles h files s))
           = skipped (stats s) + length (filter isSkipped ocs)"
    and "errored (console (processFiles h files s))
           = errored (console s) + length (filter isErrored ocs)"
    and "events (processFiles h files s) = asked'"
    and "disk s (outputFile s) = Some d \<Longrightarrow>
         disk (processFiles h files s) (outputFile s) = Some (d @ sections files ocs)"
  using processFiles_refines_all [OF assms] by simp_all

subsection \<open>The run around the loop\<close>

text \<open>
  A run in which git answers and the header is written reaches the summary with the
  header and the sections in the output file and the outcomes counted.
\<close>

lemma run_until_summary:
  assumes "gitRevParse h (events s) = Inr g" and "success g"
    and "gitRepoInfo h (events s @ [GitRevParse (Inr g)]) = Inr (rootOutput, branchOutput)"
    and "root = trim h (stdout rootOutput)"
    and "t1 = now h (events s @ [GitRevParse (Inr g), GitRepoInfo (Inr (rootOutput, branchOutput))])"
    and "asked3 = events s @ [GitRevParse (Inr g), GitRepoInfo (Inr (rootOutput, branchOutput)),
                              Now t1]"
    and "header = headerBlock t1 root (trim h (stdout branchOutput)) (version h)"
    and "writeTextFile h asked3 (outputFile s) header False = None"
    and "asked4 = asked3 @ [WriteTextFile (outputFile s) header False None]"
    and "gitLsFiles h asked4 = Inr listing" and "success listing"
    and "stdout listing = joinWith (CHR 0x0A) lines" and "lines \<noteq> []"
    and "\<forall>l \<in> set lines. CHR 0x0A \<notin> set l"
    and "files = filter (\<lambda>l. trim h l \<noteq> []) lines"
    and "outcomes h (outputFile s) root files (asked4 @ [GitLsFiles (Inr listing)])
           = (ocs, asked6)"
  shows "\<exists>s6. generate h s = writeSummary h s6 \<and>
              events s6 = asked6 \<and> outputFile s6 = outputFile s \<and>
              stats s6 = \<lparr>processed = processed (stats s) + length (filter isProcessed ocs),
                          skipped = skipped (stats s) + length (filter isSkipped ocs)\<rparr> \<and>
              disk s6 (outputFile s) = Some (header @ sections files ocs)"
proof -
  define s5 where
    "s5 = s\<lparr>repoRoot := root, console := console s @ [LogGenerating (outputFile s)],
            disk := (disk s)(outputFile s \<mapsto> header),
            events := asked4 @ [GitLsFiles (Inr listing)]\<rparr>"
  have files: "lsLines h (stdout listing) = files"
    using assms(12-15) lsLines_joinWith [of lines h] by simp
  have g: "generate h s = writeSummary h (processFiles h files s5)"
    using assms(1-11) files
    by (simp add: generate_def checkGitRepo_def runGitRevParse_def getRepoInfo_def
        runGitRepoInfo_def isoNow_def denoWriteTextFile_def getTrackedFiles_def
        runGitLsFiles_def record_event_def print_def Let_def s5_def)
  have s5: "outputFile s5 = outputFile s" "repoRoot s5 = root"
    "events s5 = asked4 @ [GitLsFiles (Inr listing)]" "stats s5 = stats s"
    "disk s5 (outputFile s5) = Some header"
    by (simp_all add: s5_def)
  let ?s6 = "processFiles h files s5"
  have loop: "outcomes h (outputFile s5) (repoRoot s5) files (events s5) = (ocs, asked6)"
    using assms(16) by (simp add: s5)
  note r = processFiles_refines [OF loop]
  have o6: "outputFile ?s6 = outputFile s" by (simp add: processFiles_outputFile s5)
  have st6: "stats ?s6 = \<lparr>processed = processed (stats s) + length (filter isProcessed ocs),
                          skipped = skipped (stats s) + length (filter isSkipped ocs)\<rparr>"
    using r(2,3) by (cases "stats ?s6") (simp add: s5)
  have d6: "disk ?s6 (outputFile s) = Some (header @ sections files ocs)"
    using r(6) [of header] s5 by simp
  show ?thesis
    using g r(5) o6 st6 d6 by blast
qed

text \<open>
  Every run that completes is such a run: git answered, the header and the summary were
  written, and the listing is the lines of what \<^verbatim>\<open>git ls-files\<close> printed.
\<close>

lemma completed_run_answers:
  assumes "fst (generate h s) = Completed"
  shows "\<exists>g rootOutput branchOutput root t1 asked3 header asked4 listing lines files ocs asked6
            t2 summary.
           gitRevParse h (events s) = Inr g \<and> success g \<and>
           gitRepoInfo h (events s @ [GitRevParse (Inr g)]) = Inr (rootOutput, branchOutput) \<and>
           root = trim h (stdout rootOutput) \<and>
           t1 = now h (events s @ [GitRevParse (Inr g),
                                   GitRepoInfo (Inr (rootOutput, branchOutput))]) \<and>
           asked3 = events s @ [GitRevParse (Inr g),
                                GitRepoInfo (Inr (rootOutput, branchOutput)), Now t1] \<and>
           header = headerBlock t1 root (trim h (stdout branchOutput)) (version h) \<and>
           writeTextFile h asked3 (outputFile s) header False = None \<and>
           asked4 = asked3 @ [WriteTextFile (outputFile s) header False None] \<and>
           gitLsFiles h asked4 = Inr listing \<and> success listing \<and>
           stdout listing = joinWith (CHR 0x0A) lines \<and> lines \<noteq> [] \<and>
           (\<forall>l \<in> set lines. CHR 0x0A \<notin> set l) \<and>
           files = filter (\<lambda>l. trim h l \<noteq> []) lines \<and>
           outcomes h (outputFile s) root files (asked4 @ [GitLsFiles (Inr listing)])
             = (ocs, asked6) \<and>
           t2 = now h asked6 \<and>
           summary = summaryBlock
             \<lparr>processed = processed (stats s) + length (filter isProcessed ocs),
              skipped = skipped (stats s) + length (filter isSkipped ocs)\<rparr> t2 (version h) \<and>
           writeTextFile h (asked6 @ [Now t2]) (outputFile s) summary True = None"
proof -
  obtain g where g: "gitRevParse h (events s) = Inr g" "success g"
    using assms
    by (cases "gitRevParse h (events s)")
      (auto simp: generate_def checkGitRepo_def runGitRevParse_def Let_def split: bool.splits)
  obtain rootOutput branchOutput where
    i: "gitRepoInfo h (events s @ [GitRevParse (Inr g)]) = Inr (rootOutput, branchOutput)"
    using assms g
    by (cases "gitRepoInfo h (events s @ [GitRevParse (Inr g)])")
      (auto simp: generate_def checkGitRepo_def runGitRevParse_def getRepoInfo_def
        runGitRepoInfo_def record_event_def Let_def)
  define root where "root = trim h (stdout rootOutput)"
  define t1 where
    "t1 = now h (events s @ [GitRevParse (Inr g), GitRepoInfo (Inr (rootOutput, branchOutput))])"
  define asked3 where
    "asked3 = events s @ [GitRevParse (Inr g), GitRepoInfo (Inr (rootOutput, branchOutput)),
                          Now t1]"
  define header where
    "header = headerBlock t1 root (trim h (stdout branchOutput)) (version h)"
  have w: "writeTextFile h asked3 (outputFile s) header False = None"
    using assms g i
    by (cases "writeTextFile h asked3 (outputFile s) header False")
      (auto simp: generate_def checkGitRepo_def runGitRevParse_def getRepoInfo_def
        runGitRepoInfo_def isoNow_def denoWriteTextFile_def record_event_def print_def Let_def
        root_def t1_def asked3_def header_def)
  define asked4 where "asked4 = asked3 @ [WriteTextFile (outputFile s) header False None]"
  obtain listing where l: "gitLsFiles h asked4 = Inr listing" "success listing"
    using assms g i w
    by (cases "gitLsFiles h asked4")
      (auto simp: generate_def checkGitRepo_def runGitRevParse_def getRepoInfo_def
        runGitRepoInfo_def isoNow_def denoWriteTextFile_def getTrackedFiles_def
        runGitLsFiles_def record_event_def print_def Let_def
        root_def t1_def asked3_def header_def asked4_def split: error.splits if_splits)
  define lines where "lines = splitLines [] (stdout listing)"
  have lines: "stdout listing = joinWith (CHR 0x0A) lines" "lines \<noteq> []"
    "\<forall>l \<in> set lines. CHR 0x0A \<notin> set l"
    using joinWith_splitLines [of "[]" "stdout listing"] splitLines_not_Nil [of "[]" "stdout listing"]
      splitLines_no_newline [of _ "[]" "stdout listing"]
    by (auto simp: lines_def)
  define files where "files = filter (\<lambda>l. trim h l \<noteq> []) lines"
  obtain ocs asked6 where
    o: "outcomes h (outputFile s) root files (asked4 @ [GitLsFiles (Inr listing)]) = (ocs, asked6)"
    by fastforce
  define t2 where "t2 = now h asked6"
  define summary where
    "summary = summaryBlock
       \<lparr>processed = processed (stats s) + length (filter isProcessed ocs),
        skipped = skipped (stats s) + length (filter isSkipped ocs)\<rparr> t2 (version h)"
  from run_until_summary [OF g i root_def t1_def asked3_def header_def w asked4_def l lines
      files_def o]
  obtain s6 where
    s6: "generate h s = writeSummary h s6" "events s6 = asked6" "outputFile s6 = outputFile s"
      "stats s6 = \<lparr>processed = processed (stats s) + length (filter isProcessed ocs),
                  skipped = skipped (stats s) + length (filter isSkipped ocs)\<rparr>"
    by blast
  have ws: "writeTextFile h (asked6 @ [Now t2]) (outputFile s) summary True = None"
    using assms s6
    by (cases "writeTextFile h (asked6 @ [Now t2]) (outputFile s) summary True")
      (auto simp: writeSummary_def isoNow_def denoWriteTextFile_def record_event_def Let_def
        t2_def summary_def)
  show ?thesis
    using g i root_def t1_def asked3_def header_def w asked4_def l lines files_def o t2_def
      summary_def ws
    by blast
qed

text \<open>The header is the fourth request of a run that finds its repository.\<close>

lemma header_request:
  assumes "gitRevParse h (events s) = Inr g" and "success g"
    and "gitRepoInfo h (events s @ [GitRevParse (Inr g)]) = Inr (rootOutput, branchOutput)"
    and "t1 = now h (events s @ [GitRevParse (Inr g), GitRepoInfo (Inr (rootOutput, branchOutput))])"
    and "header = headerBlock t1 (trim h (stdout rootOutput)) (trim h (stdout branchOutput))
                    (version h)"
    and "asked3 = events s @ [GitRevParse (Inr g), GitRepoInfo (Inr (rootOutput, branchOutput)),
                              Now t1]"
  shows "prefix (asked3 @ [WriteTextFile (outputFile s) header False
                             (writeTextFile h asked3 (outputFile s) header False)])
           (events (snd (generate h s)))"
proof (cases "writeTextFile h asked3 (outputFile s) header False")
  case (Some e)
  then show ?thesis
    using assms
    by (simp add: generate_def checkGitRepo_def runGitRevParse_def getRepoInfo_def
        runGitRepoInfo_def isoNow_def denoWriteTextFile_def record_event_def print_def Let_def)
next
  case None
  define s4 where
    "s4 = s\<lparr>repoRoot := trim h (stdout rootOutput),
            console := console s @ [LogGenerating (outputFile s)],
            events := asked3 @ [WriteTextFile (outputFile s) header False None],
            disk := (disk s)(outputFile s \<mapsto> header)\<rparr>"
  obtain r5 s5 where l: "getTrackedFiles h s4 = (r5, s5)" by fastforce
  have g: "generate h s
             = (case r5 of Inl e \<Rightarrow> (Thrown e, s5)
                | Inr files \<Rightarrow> writeSummary h (processFiles h files s5))"
    using assms None l
    by (simp add: generate_def checkGitRepo_def runGitRevParse_def getRepoInfo_def
        runGitRepoInfo_def isoNow_def denoWriteTextFile_def record_event_def print_def Let_def
        s4_def split: sum.splits)
  have 4: "prefix (events s4) (events s5)" using l by (rule getTrackedFiles_events)
  have "prefix (events s4) (events (snd (generate h s)))"
  proof (cases r5)
    case (Inl e)
    then show ?thesis using g 4 by simp
  next
    case (Inr files)
    have "prefix (events s5) (events (processFiles h files s5))" by (rule processFiles_events)
    also have "prefix \<dots> (events (snd (writeSummary h (processFiles h files s5))))"
      by (rule writeSummary_events)
    finally show ?thesis using g Inr 4 by (auto intro: prefix_order.trans)
  qed
  then show ?thesis using None by (simp add: s4_def)
qed

subsection \<open>The example worlds\<close>

lemma demoHost_sel:
  "gitRevParse demoHost = (\<lambda>evs. Inr \<lparr>success = True, stdout = [], stderr = []\<rparr>)"
  "gitRepoInfo demoHost
     = (\<lambda>evs. Inr (\<lparr>success = True, stdout = ''/r\<newline>'', stderr = []\<rparr>,
                    \<lparr>success = True, stdout = ''main\<newline>'', stderr = []\<rparr>))"
  "gitLsFiles demoHost
     = (\<lambda>evs. Inr \<lparr>success = True, stdout = ''a.txt\<newline>img.png\<newline>link.txt\<newline>'',
                     stderr = []\<rparr>)"
  "fileCmd demoHost
     = (\<lambda>evs path. Inr \<lparr>success = True,
          stdout = (if path = ''/r/a.txt'' then ''/r/a.txt: ASCII text''
                    else path @ '': PNG image data''), stderr = []\<rparr>)"
  "lstat demoHost = (\<lambda>evs path. Inr \<lparr>isSymlink = (path = ''/r/link.txt'')\<rparr>)"
  "readTextFile demoHost = (\<lambda>evs path. Inr ''hello'')"
  "writeTextFile demoHost = (\<lambda>evs path data app. None)"
  "now demoHost = (\<lambda>evs. ''2024-01-31T12:00:00.000Z'')"
  "join demoHost = (\<lambda>a b. a @ ''/'' @ b)"
  "trim demoHost = trimAscii"
  "version demoHost = ''1.0.0''"
  by (simp_all add: demoHost_def)

lemma atRoot_sel:
  "outputFile atRoot = ''out.txt''" "stats atRoot = \<lparr>processed = 0, skipped = 0\<rparr>"
  "repoRoot atRoot = ''/r''" "disk atRoot = Map.empty" "console atRoot = []"
  "events atRoot = []"
  by (simp_all add: atRoot_def newGenerator_def)

lemma newGenerator_sel:
  "outputFile (newGenerator out d) = out"
  "stats (newGenerator out d) = \<lparr>processed = 0, skipped = 0\<rparr>"
  "events (newGenerator out d) = []" "disk (newGenerator out d) = d"
  by (simp_all add: newGenerator_def)

lemma example_join:
  "join demoHost ''/r'' p = ''/r/'' @ p" "join deniedHost ''/r'' p = ''/r/'' @ p"
  "join noFileCmdHost ''/r'' p = ''/r/'' @ p" "join vanishHost ''/r'' p = ''/r/'' @ p"
  "join fullDiskHost ''/r'' p = ''/r/'' @ p"
  by (simp_all add: demoHost_sel deniedHost_def noFileCmdHost_def vanishHost_def
      fullDiskHost_def)

lemma example_sel:
  "lstat deniedHost = lstat demoHost" "fileCmd deniedHost = fileCmd demoHost"
  "readTextFile deniedHost = (\<lambda>evs path. Inl (OtherError ''Permission denied''))"
  "lstat fullDiskHost = lstat demoHost" "fileCmd fullDiskHost = fileCmd demoHost"
  "readTextFile fullDiskHost = readTextFile demoHost"
  "writeTextFile fullDiskHost
     = (\<lambda>evs path data app. if app then Some (OtherError ''No space left on device'') else None)"
  "lstat vanishHost = lstat demoHost" "fileCmd vanishHost = fileCmd demoHost"
  "readTextFile vanishHost = (\<lambda>evs path. Inl (NotFound ''No such file or directory''))"
  by (simp_all add: deniedHost_def fullDiskHost_def vanishHost_def)

lemma changingHost_sel:
  "readTextFile changingHost = (\<lambda>evs path. Inr (if evs = [] then ''hello'' else ''bye''))"
  by (simp add: changingHost_def)

lemmas run_file = processFile_def tryFile_def isBinaryFile_def formatFileContent_def
  denoWriteTextFile_def denoReadTextFile_def denoLstat_def runFileCmd_def record_event_def
  print_def skip_def count_def Let_def toLowerCase_def toLowerChar_def atRoot_def
  newGenerator_def demoHost_sel

lemmas spec_file = outcomeOf_def Let_def includes_text [symmetric] includes_empty [symmetric]
  toLowerCase_def toLowerChar_def demoHost_sel example_sel

text \<open>The outcomes of the three files of the scenario, and where reading is not permitted.\<close>

lemma demo_outcomes:
  "fst (outcomes demoHost ''out.txt'' ''/r'' [''a.txt'', ''img.png'', ''link.txt''] asked)
     = [Processed ''hello'', SkippedBinary, SkippedSymlink]"
  by (simp add: spec_file split: prod.splits)


section \<open>The claims of the specification\<close>

subsection \<open>C1: a failure on one file\<close>

text \<open>
  Claim C1, as the code has it. Take a path that \<^verbatim>\<open>lstat\<close> finds, that is no symbolic link
  and that \<^verbatim>\<open>file\<close> calls text, and let the read of the file fail, or the read succeed and
  the append of its section fail, with the error \<open>e\<close>. Then the catch of the loop takes
  the error: the processed counter is unchanged, the turn asks nothing more of the
  world, and the loop goes on with the next path. When \<open>e\<close> is anything other than
  \<^verbatim>\<open>Deno.errors.NotFound\<close> (a permission failure, say) it is printed as an error and the
  skipped counter is unchanged too. When \<open>e\<close> is a \<^verbatim>\<open>NotFound\<close>, which is what a file that
  vanished between classification and read raises, a missing file is printed and the
  skipped counter grows by one.
\<close>

theorem per_file_failure_caught:
  assumes "fullPath = join h (repoRoot s) p"
    and "lstat h (events s) fullPath = Inr info" and "\<not> isSymlink info"
    and "asked1 = events s @ [Lstat fullPath (Inr info)]"
    and "fileCmd h asked1 fullPath = Inr out"
    and "containsIgnoringCase ''text'' (stdout out) \<or> containsIgnoringCase ''empty'' (stdout out)"
    and "asked2 = asked1 @ [FileCmd fullPath (Inr out)]"
    and "readTextFile h asked2 fullPath = Inl e \<and>
           asked' = asked2 @ [ReadTextFile fullPath (Inl e)] \<or>
         (\<exists>content.
            readTextFile h asked2 fullPath = Inr content \<and>
            writeTextFile h (asked2 @ [ReadTextFile fullPath (Inr content)]) (outputFile s)
              (fileSection p content) True = Some e \<and>
            asked' = asked2 @ [ReadTextFile fullPath (Inr content),
                               WriteTextFile (outputFile s) (fileSection p content) True (Some e)])"
  shows "processed (stats (processFile h p s)) = processed (stats s) \<and>
         skipped (stats (processFile h p s))
           = skipped (stats s) + (case e of NotFound m \<Rightarrow> 1 | OtherError m \<Rightarrow> 0) \<and>
         console (processFile h p s)
           = console s @ [case e of NotFound m \<Rightarrow> LogSkippedMissing p
                                  | OtherError m \<Rightarrow> ErrProcessing p m] \<and>
         events (processFile h p s) = asked' \<and>
         processFiles h (p # rest) s = processFiles h rest (processFile h p s)"
proof -
  from assms(8) show ?thesis
  proof
    assume "readTextFile h asked2 fullPath = Inl e \<and>
            asked' = asked2 @ [ReadTextFile fullPath (Inl e)]"
    then show ?thesis
      using assms(1-7)
      by (cases e)
        (simp_all add: processFile_def tryFile_def formatFileContent_def
          denoReadTextFile_def denoLstat_def record_event_def print_def skip_def Let_def
          isBinaryFile_answer)
  next
    assume "\<exists>content.
            readTextFile h asked2 fullPath = Inr content \<and>
            writeTextFile h (asked2 @ [ReadTextFile fullPath (Inr content)]) (outputFile s)
              (fileSection p content) True = Some e \<and>
            asked' = asked2 @ [ReadTextFile fullPath (Inr content),
                               WriteTextFile (outputFile s) (fileSection p content) True (Some e)]"
    then obtain content where
      "readTextFile h asked2 fullPath = Inr content"
      "writeTextFile h (asked2 @ [ReadTextFile fullPath (Inr content)]) (outputFile s)
         (fileSection p content) True = Some e"
      "asked' = asked2 @ [ReadTextFile fullPath (Inr content),
                          WriteTextFile (outputFile s) (fileSection p content) True (Some e)]"
      by blast
    then show ?thesis
      using assms(1-7)
      by (cases e)
        (simp_all add: processFile_def tryFile_def formatFileContent_def
          denoReadTextFile_def denoWriteTextFile_def denoLstat_def record_event_def
          print_def skip_def Let_def isBinaryFile_answer)
  qed
qed

text \<open>
  C1 at a file that may not be read, at a file whose section cannot be appended because
  the disk is full, and at a file that vanished before the read.
\<close>

theorem per_file_failure_caught_witness:
  "stats (processFile deniedHost ''a.txt'' atRoot) = \<lparr>processed = 0, skipped = 0\<rparr> \<and>
   console (processFile deniedHost ''a.txt'' atRoot)
     = [ErrProcessing ''a.txt'' ''Permission denied''] \<and>
   events (processFile deniedHost ''a.txt'' atRoot)
     = [Lstat ''/r/a.txt'' (Inr \<lparr>isSymlink = False\<rparr>),
        FileCmd ''/r/a.txt''
          (Inr \<lparr>success = True, stdout = ''/r/a.txt: ASCII text'', stderr = []\<rparr>),
        ReadTextFile ''/r/a.txt'' (Inl (OtherError ''Permission denied''))] \<and>
   stats (processFile fullDiskHost ''a.txt'' atRoot) = \<lparr>processed = 0, skipped = 0\<rparr> \<and>
   console (processFile fullDiskHost ''a.txt'' atRoot)
     = [ErrProcessing ''a.txt'' ''No space left on device''] \<and>
   events (processFile fullDiskHost ''a.txt'' atRoot)
     = [Lstat ''/r/a.txt'' (Inr \<lparr>isSymlink = False\<rparr>),
        FileCmd ''/r/a.txt''
          (Inr \<lparr>success = True, stdout = ''/r/a.txt: ASCII text'', stderr = []\<rparr>),
        ReadTextFile ''/r/a.txt'' (Inr ''hello''),
        WriteTextFile ''out.txt'' (fileSection ''a.txt'' ''hello'') True
          (Some (OtherError ''No space left on device''))] \<and>
   stats (processFile vanishHost ''a.txt'' atRoot) = \<lparr>processed = 0, skipped = 1\<rparr> \<and>
   console (processFile vanishHost ''a.txt'' atRoot) = [LogSkippedMissing ''a.txt'']"
proof -
  let ?info = "\<lparr>isSymlink = False\<rparr>"
  let ?out = "\<lparr>success = True, stdout = ''/r/a.txt: ASCII text'', stderr = []\<rparr>"
  let ?asked1 = "[Lstat ''/r/a.txt'' (Inr ?info)]"
  let ?asked2 = "[Lstat ''/r/a.txt'' (Inr ?info), FileCmd ''/r/a.txt'' (Inr ?out)]"
  have isText: "containsIgnoringCase ''text'' (stdout ?out) \<or>
                containsIgnoringCase ''empty'' (stdout ?out)"
    by (simp add: includes_text [symmetric] toLowerCase_def toLowerChar_def)
  have denied:
    "readTextFile deniedHost ?asked2 ''/r/a.txt'' = Inl (OtherError ''Permission denied'') \<and>
       ?asked2 @ [ReadTextFile ''/r/a.txt'' (Inl (OtherError ''Permission denied''))]
         = ?asked2 @ [ReadTextFile ''/r/a.txt'' (Inl (OtherError ''Permission denied''))] \<or>
     (\<exists>content.
        readTextFile deniedHost ?asked2 ''/r/a.txt'' = Inr content \<and>
        writeTextFile deniedHost (?asked2 @ [ReadTextFile ''/r/a.txt'' (Inr content)])
          (outputFile atRoot) (fileSection ''a.txt'' content) True
          = Some (OtherError ''Permission denied'') \<and>
        ?asked2 @ [ReadTextFile ''/r/a.txt'' (Inl (OtherError ''Permission denied''))]
          = ?asked2 @ [ReadTextFile ''/r/a.txt'' (Inr content),
                       WriteTextFile (outputFile atRoot) (fileSection ''a.txt'' content) True
                         (Some (OtherError ''Permission denied''))])"
    by (simp add: example_sel)
  have full:
    "readTextFile fullDiskHost ?asked2 ''/r/a.txt'' = Inl (OtherError ''No space left on device'') \<and>
       ?asked2 @ [ReadTextFile ''/r/a.txt'' (Inr ''hello''),
                  WriteTextFile ''out.txt'' (fileSection ''a.txt'' ''hello'') True
                    (Some (OtherError ''No space left on device''))]
         = ?asked2 @ [ReadTextFile ''/r/a.txt'' (Inl (OtherError ''No space left on device''))] \<or>
     (\<exists>content.
        readTextFile fullDiskHost ?asked2 ''/r/a.txt'' = Inr content \<and>
        writeTextFile fullDiskHost (?asked2 @ [ReadTextFile ''/r/a.txt'' (Inr content)])
          (outputFile atRoot) (fileSection ''a.txt'' content) True
          = Some (OtherError ''No space left on device'') \<and>
        ?asked2 @ [ReadTextFile ''/r/a.txt'' (Inr ''hello''),
                   WriteTextFile ''out.txt'' (fileSection ''a.txt'' ''hello'') True
                     (Some (OtherError ''No space left on device''))]
          = ?asked2 @ [ReadTextFile ''/r/a.txt'' (Inr content),
                       WriteTextFile (outputFile atRoot) (fileSection ''a.txt'' content) True
                         (Some (OtherError ''No space left on device''))])"
    by (simp add: example_sel demoHost_sel atRoot_sel)
  have 1: "processed (stats (processFile deniedHost ''a.txt'' atRoot)) = processed (stats atRoot) \<and>
         skipped (stats (processFile deniedHost ''a.txt'' atRoot))
           = skipped (stats atRoot)
             + (case OtherError ''Permission denied'' of NotFound m \<Rightarrow> 1 | OtherError m \<Rightarrow> 0) \<and>
         console (processFile deniedHost ''a.txt'' atRoot)
           = console atRoot @ [case OtherError ''Permission denied'' of
                                 NotFound m \<Rightarrow> LogSkippedMissing ''a.txt''
                               | OtherError m \<Rightarrow> ErrProcessing ''a.txt'' m] \<and>
         events (processFile deniedHost ''a.txt'' atRoot)
           = ?asked2 @ [ReadTextFile ''/r/a.txt'' (Inl (OtherError ''Permission denied''))] \<and>
         processFiles deniedHost (''a.txt'' # []) atRoot
           = processFiles deniedHost [] (processFile deniedHost ''a.txt'' atRoot)"
    by (rule per_file_failure_caught
          [of "''/r/a.txt''" deniedHost atRoot "''a.txt''" ?info ?asked1 ?out ?asked2,
           OF _ _ _ _ _ isText _ denied])
      (simp_all add: example_sel demoHost_sel atRoot_sel example_join)
  have 2: "processed (stats (processFile fullDiskHost ''a.txt'' atRoot)) = processed (stats atRoot) \<and>
         skipped (stats (processFile fullDiskHost ''a.txt'' atRoot))
           = skipped (stats atRoot)
             + (case OtherError ''No space left on device'' of
                  NotFound m \<Rightarrow> 1 | OtherError m \<Rightarrow> 0) \<and>
         console (processFile fullDiskHost ''a.txt'' atRoot)
           = console atRoot @ [case OtherError ''No space left on device'' of
                                 NotFound m \<Rightarrow> LogSkippedMissing ''a.txt''
                               | OtherError m \<Rightarrow> ErrProcessing ''a.txt'' m] \<and>
         events (processFile fullDiskHost ''a.txt'' atRoot)
           = ?asked2 @ [ReadTextFile ''/r/a.txt'' (Inr ''hello''),
                        WriteTextFile ''out.txt'' (fileSection ''a.txt'' ''hello'') True
                          (Some (OtherError ''No space left on device''))] \<and>
         processFiles fullDiskHost (''a.txt'' # []) atRoot
           = processFiles fullDiskHost [] (processFile fullDiskHost ''a.txt'' atRoot)"
    by (rule per_file_failure_caught
          [of "''/r/a.txt''" fullDiskHost atRoot "''a.txt''" ?info ?asked1 ?out ?asked2,
           OF _ _ _ _ _ isText _ full])
      (simp_all add: example_sel demoHost_sel atRoot_sel example_join)
  have gone:
    "readTextFile vanishHost ?asked2 ''/r/a.txt'' = Inl (NotFound ''No such file or directory'') \<and>
       ?asked2 @ [ReadTextFile ''/r/a.txt'' (Inl (NotFound ''No such file or directory''))]
         = ?asked2 @ [ReadTextFile ''/r/a.txt'' (Inl (NotFound ''No such file or directory''))] \<or>
     (\<exists>content.
        readTextFile vanishHost ?asked2 ''/r/a.txt'' = Inr content \<and>
        writeTextFile vanishHost (?asked2 @ [ReadTextFile ''/r/a.txt'' (Inr content)])
          (outputFile atRoot) (fileSection ''a.txt'' content) True
          = Some (NotFound ''No such file or directory'') \<and>
        ?asked2 @ [ReadTextFile ''/r/a.txt'' (Inl (NotFound ''No such file or directory''))]
          = ?asked2 @ [ReadTextFile ''/r/a.txt'' (Inr content),
                       WriteTextFile (outputFile atRoot) (fileSection ''a.txt'' content) True
                         (Some (NotFound ''No such file or directory''))])"
    by (simp add: example_sel)
  have 3: "processed (stats (processFile vanishHost ''a.txt'' atRoot)) = processed (stats atRoot) \<and>
         skipped (stats (processFile vanishHost ''a.txt'' atRoot))
           = skipped (stats atRoot)
             + (case NotFound ''No such file or directory'' of
                  NotFound m \<Rightarrow> 1 | OtherError m \<Rightarrow> 0) \<and>
         console (processFile vanishHost ''a.txt'' atRoot)
           = console atRoot @ [case NotFound ''No such file or directory'' of
                                 NotFound m \<Rightarrow> LogSkippedMissing ''a.txt''
                               | OtherError m \<Rightarrow> ErrProcessing ''a.txt'' m] \<and>
         events (processFile vanishHost ''a.txt'' atRoot)
           = ?asked2 @ [ReadTextFile ''/r/a.txt'' (Inl (NotFound ''No such file or directory''))] \<and>
         processFiles vanishHost (''a.txt'' # []) atRoot
           = processFiles vanishHost [] (processFile vanishHost ''a.txt'' atRoot)"
    by (rule per_file_failure_caught
          [of "''/r/a.txt''" vanishHost atRoot "''a.txt''" ?info ?asked1 ?out ?asked2,
           OF _ _ _ _ _ isText _ gone])
      (simp_all add: example_sel demoHost_sel atRoot_sel example_join)
  have s'': "stats (processFile vanishHost ''a.txt'' atRoot) = \<lparr>processed = 0, skipped = 1\<rparr>"
    using 3 by (cases "stats (processFile vanishHost ''a.txt'' atRoot)") (simp add: atRoot_sel)
  have s: "stats (processFile deniedHost ''a.txt'' atRoot) = \<lparr>processed = 0, skipped = 0\<rparr>"
    using 1 by (cases "stats (processFile deniedHost ''a.txt'' atRoot)") (simp add: atRoot_sel)
  have s': "stats (processFile fullDiskHost ''a.txt'' atRoot) = \<lparr>processed = 0, skipped = 0\<rparr>"
    using 2 by (cases "stats (processFile fullDiskHost ''a.txt'' atRoot)") (simp add: atRoot_sel)
  show ?thesis using 1 2 3 s s' s'' by (simp add: atRoot_sel)
qed

text \<open>
  C1 as the spec words it fails where the file is there for \<^verbatim>\<open>lstat\<close> and for \<^verbatim>\<open>file\<close> and
  gone at the read: the skipped counter goes from 0 to 1.
\<close>

theorem missing_at_read_is_skipped:
  "events (processFile vanishHost ''a.txt'' atRoot)
     = [Lstat ''/r/a.txt'' (Inr \<lparr>isSymlink = False\<rparr>),
        FileCmd ''/r/a.txt''
          (Inr \<lparr>success = True, stdout = ''/r/a.txt: ASCII text'', stderr = []\<rparr>),
        ReadTextFile ''/r/a.txt'' (Inl (NotFound ''No such file or directory''))] \<and>
   skipped (stats atRoot) = 0 \<and>
   skipped (stats (processFile vanishHost ''a.txt'' atRoot)) = 1"
  by (simp add: run_file vanishHost_def)

subsection \<open>C2: the formatting operations\<close>

text \<open>
  Claim C2, as the code has it. The header that \<^verbatim>\<open>generate\<close> writes is the header block of
  the time read from the clock, the trimmed root and branch that git printed and the
  version, and of nothing else; the summary written at the end is the summary block of the
  counters, the time and the version, and of nothing else; the section of a file is the
  block of the relative path and of the content read. The formatter of the section,
  \<^verbatim>\<open>formatFileContent\<close>, reads the file at \<open>fullPath\<close> itself: two calls with the same
  relative path whose reads return the same content return the same text, byte for byte.
\<close>

theorem formatting_from_inputs:
  assumes "gitRevParse h (events s) = Inr g" and "success g"
    and "gitRepoInfo h (events s @ [GitRevParse (Inr g)]) = Inr (rootOutput, branchOutput)"
    and "t1 = now h (events s @ [GitRevParse (Inr g), GitRepoInfo (Inr (rootOutput, branchOutput))])"
    and "header = headerBlock t1 (trim h (stdout rootOutput)) (trim h (stdout branchOutput))
                    (version h)"
    and "asked3 = events s @ [GitRevParse (Inr g), GitRepoInfo (Inr (rootOutput, branchOutput)),
                              Now t1]"
    and "t2 = now h (events s2)"
    and "summary = summaryBlock (stats s2) t2 (version h)"
    and "readTextFile h (events s3) fullPath = Inr content"
    and "readTextFile h' (events s3') fullPath' = Inr content"
  shows "prefix (asked3 @ [WriteTextFile (outputFile s) header False
                             (writeTextFile h asked3 (outputFile s) header False)])
           (events (snd (generate h s))) \<and>
         events (snd (writeSummary h s2))
           = events s2 @ [Now t2, WriteTextFile (outputFile s2) summary True
                                    (writeTextFile h (events s2 @ [Now t2]) (outputFile s2)
                                       summary True)] \<and>
         fst (formatFileContent h relativePath fullPath s3)
           = Inr (fileSection relativePath content) \<and>
         fst (formatFileContent h' relativePath fullPath' s3')
           = fst (formatFileContent h relativePath fullPath s3)"
proof -
  have "events (snd (writeSummary h s2))
           = events s2 @ [Now t2, WriteTextFile (outputFile s2) summary True
                                    (writeTextFile h (events s2 @ [Now t2]) (outputFile s2)
                                       summary True)]"
    using assms(7,8)
    by (simp add: writeSummary_def isoNow_def denoWriteTextFile_def record_event_def print_def
        Let_def split: option.splits)
  moreover have "fst (formatFileContent h relativePath fullPath s3)
                   = Inr (fileSection relativePath content)"
    "fst (formatFileContent h' relativePath fullPath' s3')
       = fst (formatFileContent h relativePath fullPath s3)"
    using assms(9,10) by (simp_all add: formatFileContent_def denoReadTextFile_def Let_def)
  ultimately show ?thesis using header_request [OF assms(1-6)] by simp
qed

text \<open>
  C2 in the world of the scenario, with the bytes of the header, of the summary and of
  the section, and a second world that holds the same content for the file.
\<close>

theorem formatting_from_inputs_witness:
  "prefix
     [GitRevParse (Inr \<lparr>success = True, stdout = [], stderr = []\<rparr>),
      GitRepoInfo (Inr (\<lparr>success = True, stdout = ''/r\<newline>'', stderr = []\<rparr>,
                        \<lparr>success = True, stdout = ''main\<newline>'', stderr = []\<rparr>)),
      Now ''2024-01-31T12:00:00.000Z'',
      WriteTextFile ''out.txt''
        ''Repository Context Generated on 2024-01-31T12:00:00.000Z\<newline>Repository Root: /r\<newline>Current Branch: main\<newline>Generator Version: 1.0.0\<newline>\<newline>---\<newline>''
        False None]
     (events (snd (generate demoHost (newGenerator ''out.txt'' Map.empty)))) \<and>
   events (snd (writeSummary demoHost atRoot))
     = [Now ''2024-01-31T12:00:00.000Z'',
        WriteTextFile ''out.txt''
          ''\<newline>=== Summary ===\<newline>\<newline>Files processed: 0\<newline>Files skipped: 0 (binary, symlinks, or missing)\<newline>Generated on: 2024-01-31T12:00:00.000Z\<newline>Generator Version: 1.0.0''
          True None] \<and>
   fst (formatFileContent demoHost ''a.txt'' ''/r/a.txt'' atRoot)
     = Inr ''\<newline>=== File: a.txt ===\<newline>\<newline>hello\<newline>\<newline>=== End: a.txt ===\<newline>'' \<and>
   fst (formatFileContent changingHost ''a.txt'' ''/other/a.txt'' atRoot)
     = fst (formatFileContent demoHost ''a.txt'' ''/r/a.txt'' atRoot)"
proof -
  let ?s = "newGenerator ''out.txt'' Map.empty"
  let ?g = "\<lparr>success = True, stdout = [], stderr = []\<rparr>"
  let ?ro = "\<lparr>success = True, stdout = ''/r\<newline>'', stderr = []\<rparr>"
  let ?bo = "\<lparr>success = True, stdout = ''main\<newline>'', stderr = []\<rparr>"
  have 1: "gitRevParse demoHost (events ?s) = Inr ?g" by (simp add: demoHost_sel)
  have 2: "success ?g" by simp
  have 3: "gitRepoInfo demoHost (events ?s @ [GitRevParse (Inr ?g)]) = Inr (?ro, ?bo)"
    by (simp add: demoHost_sel)
  have 9: "readTextFile demoHost (events atRoot) ''/r/a.txt'' = Inr ''hello''"
    by (simp add: demoHost_sel)
  have 10: "readTextFile changingHost (events atRoot) ''/other/a.txt'' = Inr ''hello''"
    by (simp add: changingHost_sel atRoot_sel)
  show ?thesis
    using formatting_from_inputs [OF 1 2 3 refl refl refl refl refl 9 10,
        of atRoot "''a.txt''"]
    by (simp add: demoHost_sel newGenerator_sel atRoot_sel trimAscii_def headerBlock_def
        summaryBlock_def fileSection_def decimal.simps digit_def)
qed

text \<open>
  C2 as the spec words it fails: \<^verbatim>\<open>formatFileContent\<close> called twice with the same two paths
  returns two different texts when the file was rewritten in between.
\<close>

theorem second_call_differs:
  "fst (formatFileContent changingHost ''a.txt'' ''/r/a.txt'' atRoot)
     \<noteq> fst (formatFileContent changingHost ''a.txt'' ''/r/a.txt''
              (snd (formatFileContent changingHost ''a.txt'' ''/r/a.txt'' atRoot)))"
  by (simp add: formatFileContent_def denoReadTextFile_def record_event_def Let_def
      changingHost_def atRoot_def newGenerator_def fileSection_def)

subsection \<open>C3: the classifier cannot be run\<close>

text \<open>
  Claim C3. For a path that \<^verbatim>\<open>lstat\<close> finds and that is no symbolic link, when running
  \<^verbatim>\<open>file\<close> fails, the turn of the loop adds one to the skipped counter and leaves the
  processed counter and the output file as they were; it prints the failure and the line
  of a skipped binary file, asks the runtime for nothing more (no read, no write), and
  the loop goes on with the next path.
\<close>

theorem classifier_failure_skips:
  assumes "lstat h (events s) (join h (repoRoot s) p) = Inr info"
    and "\<not> isSymlink info"
    and "fileCmd h (events s @ [Lstat (join h (repoRoot s) p) (Inr info)])
           (join h (repoRoot s) p) = Inl e"
  shows "skipped (stats (processFile h p s)) = skipped (stats s) + 1 \<and>
         processed (stats (processFile h p s)) = processed (stats s) \<and>
         disk (processFile h p s) = disk s \<and>
         console (processFile h p s)
           = console s @ [ErrCheckingFileType (join h (repoRoot s) p) (message e),
                          LogSkippedBinary p] \<and>
         events (processFile h p s)
           = events s @ [Lstat (join h (repoRoot s) p) (Inr info),
                         FileCmd (join h (repoRoot s) p) (Inl e)] \<and>
         processFiles h (p # rest) s = processFiles h rest (processFile h p s)"
  using assms
  by (simp add: processFile_def tryFile_def isBinaryFile_def runFileCmd_def denoLstat_def
      Let_def record_event_def print_def skip_def)

text \<open>C3 in a world without the \<^verbatim>\<open>file\<close> command.\<close>

theorem classifier_failure_skips_witness:
  "lstat noFileCmdHost (events atRoot) ''/r/a.txt'' = Inr \<lparr>isSymlink = False\<rparr> \<and>
   fileCmd noFileCmdHost [Lstat ''/r/a.txt'' (Inr \<lparr>isSymlink = False\<rparr>)] ''/r/a.txt''
     = Inl (NotFound ''Failed to spawn: file'') \<and>
   stats (processFile noFileCmdHost ''a.txt'' atRoot) = \<lparr>processed = 0, skipped = 1\<rparr> \<and>
   disk (processFile noFileCmdHost ''a.txt'' atRoot) = Map.empty \<and>
   console (processFile noFileCmdHost ''a.txt'' atRoot)
     = [ErrCheckingFileType ''/r/a.txt'' ''Failed to spawn: file'', LogSkippedBinary ''a.txt''] \<and>
   events (processFile noFileCmdHost ''a.txt'' atRoot)
     = [Lstat ''/r/a.txt'' (Inr \<lparr>isSymlink = False\<rparr>),
        FileCmd ''/r/a.txt'' (Inl (NotFound ''Failed to spawn: file''))] \<and>
   processFiles noFileCmdHost [''a.txt'', ''link.txt''] atRoot
     = processFiles noFileCmdHost [''link.txt''] (processFile noFileCmdHost ''a.txt'' atRoot)"
proof -
  have 1: "lstat noFileCmdHost (events atRoot) (join noFileCmdHost (repoRoot atRoot) ''a.txt'')
             = Inr \<lparr>isSymlink = False\<rparr>"
    by (simp add: noFileCmdHost_def demoHost_sel atRoot_sel)
  have 2: "\<not> isSymlink \<lparr>isSymlink = False\<rparr>" by simp
  have 3: "fileCmd noFileCmdHost
             (events atRoot @ [Lstat (join noFileCmdHost (repoRoot atRoot) ''a.txt'')
                                 (Inr \<lparr>isSymlink = False\<rparr>)])
             (join noFileCmdHost (repoRoot atRoot) ''a.txt'')
             = Inl (NotFound ''Failed to spawn: file'')"
    by (simp add: noFileCmdHost_def)
  show ?thesis
    using 1 3 classifier_failure_skips [OF 1 2 3, of "[''link.txt'']"]
    by (simp add: atRoot_sel example_join)
qed

subsection \<open>C4: the order of the document\<close>

text \<open>
  Claim C4, as the code has it. Take a run in which git answers, the header is written
  and the summary is written: these are the runs that complete
  (\<open>completed_run_answers\<close>). Let \<open>lines\<close> be the lines of what \<^verbatim>\<open>git ls-files\<close> printed, in
  their order, \<open>files\<close> those that are not blank, and \<open>ocs\<close> the outcomes of these files as
  the spec tells them from the answers of the world. Then the run completes and the
  output file holds the header block, then the sections of the processed files in the
  order of \<open>files\<close> and nothing for the others, then the summary block with the two
  counts; with no processed file the summary follows the header at once.
\<close>

theorem document_order:
  assumes "gitRevParse h (events s) = Inr g" and "success g"
    and "gitRepoInfo h (events s @ [GitRevParse (Inr g)]) = Inr (rootOutput, branchOutput)"
    and "root = trim h (stdout rootOutput)"
    and "t1 = now h (events s @ [GitRevParse (Inr g), GitRepoInfo (Inr (rootOutput, branchOutput))])"
    and "asked3 = events s @ [GitRevParse (Inr g), GitRepoInfo (Inr (rootOutput, branchOutput)),
                              Now t1]"
    and "header = headerBlock t1 root (trim h (stdout branchOutput)) (version h)"
    and "writeTextFile h asked3 (outputFile s) header False = None"
    and "asked4 = asked3 @ [WriteTextFile (outputFile s) header False None]"
    and "gitLsFiles h asked4 = Inr listing" and "success listing"
    and "stdout listing = joinWith (CHR 0x0A) lines" and "lines \<noteq> []"
    and "\<forall>l \<in> set lines. CHR 0x0A \<notin> set l"
    and "files = filter (\<lambda>l. trim h l \<noteq> []) lines"
    and "outcomes h (outputFile s) root files (asked4 @ [GitLsFiles (Inr listing)])
           = (ocs, asked6)"
    and "t2 = now h asked6"
    and "summary = summaryBlock
           \<lparr>processed = processed (stats s) + length (filter isProcessed ocs),
            skipped = skipped (stats s) + length (filter isSkipped ocs)\<rparr> t2 (version h)"
    and "writeTextFile h (asked6 @ [Now t2]) (outputFile s) summary True = None"
  shows "fst (generate h s) = Completed \<and>
         disk (snd (generate h s)) (outputFile s) = Some (header @ sections files ocs @ summary)"
proof -
  from run_until_summary [OF assms(1-16)] obtain s6 where
    s6: "generate h s = writeSummary h s6" "events s6 = asked6" "outputFile s6 = outputFile s"
      "stats s6 = \<lparr>processed = processed (stats s) + length (filter isProcessed ocs),
                  skipped = skipped (stats s) + length (filter isSkipped ocs)\<rparr>"
      "disk s6 (outputFile s) = Some (header @ sections files ocs)"
    by blast
  have "fst (writeSummary h s6) = Completed \<and>
        disk (snd (writeSummary h s6)) (outputFile s)
          = Some ((header @ sections files ocs) @ summary)"
    using assms(17-19) s6(2-5)
    by (simp add: writeSummary_def isoNow_def denoWriteTextFile_def record_event_def
        print_def Let_def)
  then show ?thesis using s6(1) by simp
qed

text \<open>C4 in the world of the scenario: the whole document, with its one section.\<close>

theorem document_order_witness:
  "fst (generate demoHost (newGenerator ''out.txt'' Map.empty)) = Completed \<and>
   disk (snd (generate demoHost (newGenerator ''out.txt'' Map.empty))) ''out.txt''
     = Some ''Repository Context Generated on 2024-01-31T12:00:00.000Z\<newline>Repository Root: /r\<newline>Current Branch: main\<newline>Generator Version: 1.0.0\<newline>\<newline>---\<newline>\<newline>=== File: a.txt ===\<newline>\<newline>hello\<newline>\<newline>=== End: a.txt ===\<newline>\<newline>=== Summary ===\<newline>\<newline>Files processed: 1\<newline>Files skipped: 2 (binary, symlinks, or missing)\<newline>Generated on: 2024-01-31T12:00:00.000Z\<newline>Generator Version: 1.0.0''"
proof -
  let ?s = "newGenerator ''out.txt'' Map.empty"
  let ?g = "\<lparr>success = True, stdout = [], stderr = []\<rparr>"
  let ?ro = "\<lparr>success = True, stdout = ''/r\<newline>'', stderr = []\<rparr>"
  let ?bo = "\<lparr>success = True, stdout = ''main\<newline>'', stderr = []\<rparr>"
  let ?ls = "\<lparr>success = True, stdout = ''a.txt\<newline>img.png\<newline>link.txt\<newline>'', stderr = []\<rparr>"
  let ?t = "''2024-01-31T12:00:00.000Z''"
  let ?lines = "[''a.txt'', ''img.png'', ''link.txt'', []]"
  let ?files = "[''a.txt'', ''img.png'', ''link.txt'']"
  let ?ocs = "[Processed ''hello'', SkippedBinary, SkippedSymlink]"
  define header where "header = headerBlock ?t ''/r'' ''main'' ''1.0.0''"
  define asked3 where "asked3 = [GitRevParse (Inr ?g), GitRepoInfo (Inr (?ro, ?bo)), Now ?t]"
  define asked4 where "asked4 = asked3 @ [WriteTextFile ''out.txt'' header False None]"
  define asked6 where
    "asked6 = snd (outcomes demoHost ''out.txt'' ''/r'' ?files (asked4 @ [GitLsFiles (Inr ?ls)]))"
  define summary where
    "summary = summaryBlock \<lparr>processed = 1, skipped = 2\<rparr> ?t ''1.0.0''"
  have 1: "gitRevParse demoHost (events ?s) = Inr ?g" by (simp add: demoHost_sel)
  have 2: "success ?g" by simp
  have 3: "gitRepoInfo demoHost (events ?s @ [GitRevParse (Inr ?g)]) = Inr (?ro, ?bo)"
    by (simp add: demoHost_sel)
  have 4: "''/r'' = trim demoHost (stdout ?ro)" by (simp add: demoHost_sel trimAscii_def)
  have 5: "?t = now demoHost (events ?s @ [GitRevParse (Inr ?g), GitRepoInfo (Inr (?ro, ?bo))])"
    by (simp add: demoHost_sel)
  have 6: "asked3 = events ?s @ [GitRevParse (Inr ?g), GitRepoInfo (Inr (?ro, ?bo)), Now ?t]"
    by (simp add: asked3_def newGenerator_sel)
  have 7: "header = headerBlock ?t ''/r'' (trim demoHost (stdout ?bo)) (version demoHost)"
    by (simp add: header_def demoHost_sel trimAscii_def)
  have 8: "writeTextFile demoHost asked3 (outputFile ?s) header False = None"
    by (simp add: demoHost_sel)
  have 9: "asked4 = asked3 @ [WriteTextFile (outputFile ?s) header False None]"
    by (simp add: asked4_def newGenerator_sel)
  have 10: "gitLsFiles demoHost asked4 = Inr ?ls" by (simp add: demoHost_sel)
  have 11: "success ?ls" by simp
  have 12: "stdout ?ls = joinWith (CHR 0x0A) ?lines" by simp
  have 13: "?lines \<noteq> []" by simp
  have 14: "\<forall>l \<in> set ?lines. CHR 0x0A \<notin> set l" by simp
  have 15: "?files = filter (\<lambda>l. trim demoHost l \<noteq> []) ?lines"
    by (simp add: demoHost_sel trimAscii_def)
  have 16: "outcomes demoHost (outputFile ?s) ''/r'' ?files (asked4 @ [GitLsFiles (Inr ?ls)])
              = (?ocs, asked6)"
    using demo_outcomes [of "asked4 @ [GitLsFiles (Inr ?ls)]"]
    by (simp only: asked6_def newGenerator_sel prod_eq_iff fst_conv snd_conv simp_thms)
  have 17: "?t = now demoHost asked6" by (simp add: demoHost_sel)
  have 18: "summary = summaryBlock
              \<lparr>processed = processed (stats ?s) + length (filter isProcessed ?ocs),
               skipped = skipped (stats ?s) + length (filter isSkipped ?ocs)\<rparr> ?t
              (version demoHost)"
    by (simp add: summary_def newGenerator_sel demoHost_sel numeral_2_eq_2)
  have 19: "writeTextFile demoHost (asked6 @ [Now ?t]) (outputFile ?s) summary True = None"
    by (simp add: demoHost_sel)
  have "fst (generate demoHost ?s) = Completed \<and>
        disk (snd (generate demoHost ?s)) (outputFile ?s)
          = Some (header @ sections ?files ?ocs @ summary)"
    by (rule document_order [OF 1 2 3 4 5 6 7 8 9 10 11 12 13 14 15 16 17 18 19])
  then show ?thesis
    by (simp add: newGenerator_sel header_def summary_def headerBlock_def summaryBlock_def
        fileSection_def sections_def decimal.simps digit_def)
qed

text \<open>
  C4 as the spec words it, for every run, fails for a run that throws after the header:
  where \<^verbatim>\<open>git ls-files\<close> fails the output file is left with the header and no summary.
\<close>

theorem header_without_summary:
  "fst (generate lsFailHost (newGenerator ''out.txt'' Map.empty))
     = Thrown (OtherError ''Git ls-files failed: fatal: index file corrupt'') \<and>
   disk (snd (generate lsFailHost (newGenerator ''out.txt'' Map.empty))) ''out.txt''
     = Some ''Repository Context Generated on 2024-01-31T12:00:00.000Z\<newline>Repository Root: /r\<newline>Current Branch: main\<newline>Generator Version: 1.0.0\<newline>\<newline>---\<newline>''"
  by (simp add: generate_def checkGitRepo_def runGitRevParse_def getRepoInfo_def
      runGitRepoInfo_def isoNow_def denoWriteTextFile_def getTrackedFiles_def
      runGitLsFiles_def record_event_def print_def Let_def newGenerator_def lsFailHost_def
      demoHost_sel trimAscii_def headerBlock_def)

subsection \<open>C5: the counters\<close>




subsection \<open>C6: outside a repository\<close>

text \<open>
  Claim C6. When \<^verbatim>\<open>checkGitRepo\<close> answers false, \<^verbatim>\<open>generate\<close> exits with code 1, no file
  is created or changed, and the only request made to the runtime is the git command of
  the check.
\<close>

theorem not_a_repository_exits:
  assumes "\<not> fst (checkGitRepo h s)"
  shows "fst (generate h s) = Exited 1 \<and>
         disk (snd (generate h s)) = disk s \<and>
         events (snd (generate h s)) = events s @ [GitRevParse (gitRevParse h (events s))]"
proof -
  obtain b s1 where c: "checkGitRepo h s = (b, s1)" by fastforce
  then have "\<not> b" using assms by simp
  then have g: "generate h s = (Exited 1, print ErrNotAGitRepository s1)"
    using c by (simp add: generate_def)
  have "disk s1 = disk s" "events s1 = events s @ [GitRevParse (gitRevParse h (events s))]"
    using c
    by (auto simp: checkGitRepo_def runGitRevParse_def Let_def record_event_def
        split: sum.splits)
  then show ?thesis using g by (simp add: print_def)
qed

text \<open>C6 in a world where \<^verbatim>\<open>git rev-parse\<close> fails.\<close>

theorem not_a_repository_exits_witness:
  "\<not> fst (checkGitRepo notRepoHost (newGenerator ''out.txt'' Map.empty)) \<and>
   fst (generate notRepoHost (newGenerator ''out.txt'' Map.empty)) = Exited 1 \<and>
   disk (snd (generate notRepoHost (newGenerator ''out.txt'' Map.empty))) = Map.empty \<and>
   events (snd (generate notRepoHost (newGenerator ''out.txt'' Map.empty)))
     = [GitRevParse (Inr \<lparr>success = False, stdout = [], stderr = []\<rparr>)]"
proof -
  have h: "\<not> fst (checkGitRepo notRepoHost (newGenerator ''out.txt'' Map.empty))"
    by (simp add: checkGitRepo_def runGitRevParse_def Let_def notRepoHost_def)
  show ?thesis
    using h not_a_repository_exits [OF h] by (simp add: newGenerator_def notRepoHost_def)
qed

subsection \<open>C7: text or binary\<close>

text \<open>
  Claim C7. When \<^verbatim>\<open>file\<close> could be run on the path, \<^verbatim>\<open>isBinaryFile\<close> answers false (the
  path is text) exactly when the output of \<^verbatim>\<open>file\<close> contains "text" or "empty", whatever
  the case of the letters: some stretch of the output is the word, each character being
  the letter of the word or its capital.
\<close>

theorem classification_by_description:
  assumes "fileCmd h (events s) path = Inr out"
  shows "(\<not> fst (isBinaryFile h path s))
           = (containsIgnoringCase ''text'' (stdout out) \<or>
              containsIgnoringCase ''empty'' (stdout out))"
proof -
  have "fst (isBinaryFile h path s)
          = (\<not> includes_str (toLowerCase (stdout out)) ''text'' \<and>
             \<not> includes_str (toLowerCase (stdout out)) ''empty'')"
    using assms by (simp add: isBinaryFile_def runFileCmd_def Let_def)
  then show ?thesis
    by (simp only: includes_text includes_empty de_Morgan_disj [symmetric] not_not)
qed

text \<open>C7 where \<^verbatim>\<open>file\<close> writes "ASCII TEXT" in capitals, and on the picture of the scenario.\<close>

theorem classification_by_description_witness:
  "fileCmd capitalsHost (events atRoot) ''/r/a.txt''
     = Inr \<lparr>success = True, stdout = ''/r/a.txt: ASCII TEXT'', stderr = []\<rparr> \<and>
   \<not> fst (isBinaryFile capitalsHost ''/r/a.txt'' atRoot) \<and>
   (containsIgnoringCase ''text'' ''/r/a.txt: ASCII TEXT'' \<or>
    containsIgnoringCase ''empty'' ''/r/a.txt: ASCII TEXT'') \<and>
   fileCmd demoHost (events atRoot) ''/r/img.png''
     = Inr \<lparr>success = True, stdout = ''/r/img.png: PNG image data'', stderr = []\<rparr> \<and>
   fst (isBinaryFile demoHost ''/r/img.png'' atRoot) \<and>
   \<not> containsIgnoringCase ''text'' ''/r/img.png: PNG image data'' \<and>
   \<not> containsIgnoringCase ''empty'' ''/r/img.png: PNG image data''"
proof -
  have 1: "fileCmd capitalsHost (events atRoot) ''/r/a.txt''
             = Inr \<lparr>success = True, stdout = ''/r/a.txt: ASCII TEXT'', stderr = []\<rparr>"
    by (simp add: capitalsHost_def)
  have 2: "fileCmd demoHost (events atRoot) ''/r/img.png''
             = Inr \<lparr>success = True, stdout = ''/r/img.png: PNG image data'', stderr = []\<rparr>"
    by (simp add: demoHost_sel)
  have t: "\<not> fst (isBinaryFile capitalsHost ''/r/a.txt'' atRoot)"
    by (simp add: isBinaryFile_def runFileCmd_def Let_def capitalsHost_def toLowerCase_def
        toLowerChar_def)
  have b: "fst (isBinaryFile demoHost ''/r/img.png'' atRoot)"
    by (simp add: isBinaryFile_def runFileCmd_def Let_def demoHost_sel toLowerCase_def
        toLowerChar_def)
  show ?thesis
    using 1 2 t b classification_by_description [OF 1] classification_by_description [OF 2]
    by simp
qed

subsection \<open>C8: symbolic links\<close>

text \<open>
  Claim C8. When \<^verbatim>\<open>lstat\<close> reports a symbolic link, the turn of the loop adds one to the
  skipped counter, leaves the processed counter and the output file as they were, prints
  the line of a skipped link, and the \<^verbatim>\<open>lstat\<close> is its only request to the runtime: the
  path is neither classified nor read, whatever its target holds.
\<close>

theorem symlink_skipped_unread:
  assumes "lstat h (events s) (join h (repoRoot s) p) = Inr info"
    and "isSymlink info"
  shows "skipped (stats (processFile h p s)) = skipped (stats s) + 1 \<and>
         processed (stats (processFile h p s)) = processed (stats s) \<and>
         disk (processFile h p s) = disk s \<and>
         console (processFile h p s) = console s @ [LogSkippedSymlink p] \<and>
         events (processFile h p s) = events s @ [Lstat (join h (repoRoot s) p) (Inr info)]"
  using assms
  by (simp add: processFile_def tryFile_def denoLstat_def Let_def record_event_def print_def
      skip_def)

text \<open>C8 on the link of the scenario, in a world where every read would succeed.\<close>

theorem symlink_skipped_unread_witness:
  "lstat demoHost (events atRoot) ''/r/link.txt'' = Inr \<lparr>isSymlink = True\<rparr> \<and>
   stats (processFile demoHost ''link.txt'' atRoot) = \<lparr>processed = 0, skipped = 1\<rparr> \<and>
   disk (processFile demoHost ''link.txt'' atRoot) = Map.empty \<and>
   console (processFile demoHost ''link.txt'' atRoot) = [LogSkippedSymlink ''link.txt''] \<and>
   events (processFile demoHost ''link.txt'' atRoot)
     = [Lstat ''/r/link.txt'' (Inr \<lparr>isSymlink = True\<rparr>)]"
proof -
  have 1: "lstat demoHost (events atRoot) (join demoHost (repoRoot atRoot) ''link.txt'')
             = Inr \<lparr>isSymlink = True\<rparr>"
    by (simp add: demoHost_sel atRoot_sel)
  have 2: "isSymlink \<lparr>isSymlink = True\<rparr>" by simp
  show ?thesis
    using 1 symlink_skipped_unread [OF 1 2] by (simp add: atRoot_sel example_join)
qed

subsection \<open>C9: the exit status of the classifier\<close>



subsection \<open>C10: nothing is appended for a skipped or failed file\<close>

text \<open>
  Claim C10. A turn of the loop that skips its path (the skipped counter grows) or that
  prints a per-file error leaves every file as it was and makes no successful append.
\<close>

theorem unprocessed_appends_nothing:
  assumes "skipped (stats (processFile h p s)) = skipped (stats s) + 1 \<or>
           errored (console (processFile h p s)) = errored (console s) + 1"
  shows "disk (processFile h p s) = disk s \<and>
         appended (events (processFile h p s)) = appended (events s)"
  using assms by (cases rule: processFile_cases [of h p s]) simp_all

text \<open>C10 on a skipped picture and on a file that may not be read.\<close>

theorem unprocessed_appends_nothing_witness:
  "skipped (stats (processFile demoHost ''img.png'' atRoot)) = skipped (stats atRoot) + 1 \<and>
   disk (processFile demoHost ''img.png'' atRoot) = disk atRoot \<and>
   appended (events (processFile demoHost ''img.png'' atRoot)) = appended (events atRoot) \<and>
   errored (console (processFile deniedHost ''a.txt'' atRoot)) = errored (console atRoot) + 1 \<and>
   disk (processFile deniedHost ''a.txt'' atRoot) = disk atRoot \<and>
   appended (events (processFile deniedHost ''a.txt'' atRoot)) = appended (events atRoot)"
proof -
  have 1: "skipped (stats (processFile demoHost ''img.png'' atRoot)) = skipped (stats atRoot) + 1"
    by (simp add: run_file)
  have 2: "errored (console (processFile deniedHost ''a.txt'' atRoot))
             = errored (console atRoot) + 1"
    by (simp add: run_file deniedHost_def errored_def)
  show ?thesis
    using 1 2 unprocessed_appends_nothing [of demoHost "''img.png''" atRoot]
      unprocessed_appends_nothing [of deniedHost "''a.txt''" atRoot]
    by simp
qed

end
